theory Spec2Isabelle
  imports Complex_Main "HOL-Library.Sublist"
begin

section \<open>Go strings: the library functions the pipeline calls\<close>

text \<open>
  A Go \<^verbatim>\<open>string\<close> is a sequence of bytes; \<^verbatim>\<open>len\<close>, indexing, slicing and
  \<^verbatim>\<open>strings.Index\<close> count bytes. It is modelled as \<^typ>\<open>string\<close>, a list of
  8-bit characters. Text outside ASCII is its UTF-8 encoding.
\<close>

text \<open>
  \<^verbatim>\<open>unicode.IsSpace\<close> holds of the code points U+0009..U+000D, U+0020, U+0085, U+00A0,
  U+1680, U+2000..U+200A, U+2028, U+2029, U+202F, U+205F and U+3000. \<open>whiteSpace\<close> lists
  their UTF-8 encodings. \<^verbatim>\<open>utf8.DecodeRuneInString\<close> yields one of these code
  points exactly when the string starts with its encoding, and
  \<^verbatim>\<open>utf8.DecodeLastRuneInString\<close> exactly when the string ends with it; any
  other byte sequence decodes to a code point that is not white space.
\<close>

definition whiteSpace :: "string list" where
  "whiteSpace =
    [[CHR 0x09], [CHR 0x0A], [CHR 0x0B], [CHR 0x0C], [CHR 0x0D], [CHR 0x20],
     [CHR 0xC2, CHR 0x85], [CHR 0xC2, CHR 0xA0],
     [CHR 0xE1, CHR 0x9A, CHR 0x80],
     [CHR 0xE2, CHR 0x80, CHR 0x80], [CHR 0xE2, CHR 0x80, CHR 0x81],
     [CHR 0xE2, CHR 0x80, CHR 0x82], [CHR 0xE2, CHR 0x80, CHR 0x83],
     [CHR 0xE2, CHR 0x80, CHR 0x84], [CHR 0xE2, CHR 0x80, CHR 0x85],
     [CHR 0xE2, CHR 0x80, CHR 0x86], [CHR 0xE2, CHR 0x80, CHR 0x87],
     [CHR 0xE2, CHR 0x80, CHR 0x88], [CHR 0xE2, CHR 0x80, CHR 0x89],
     [CHR 0xE2, CHR 0x80, CHR 0x8A],
     [CHR 0xE2, CHR 0x80, CHR 0xA8], [CHR 0xE2, CHR 0x80, CHR 0xA9],
     [CHR 0xE2, CHR 0x80, CHR 0xAF],
     [CHR 0xE2, CHR 0x81, CHR 0x9F],
     [CHR 0xE3, CHR 0x80, CHR 0x80]]"

text \<open>The width in bytes of the white-space rune a string starts with (ends with); 0 when
  its first (last) rune is not white space or the string is empty.\<close>

definition leadingSpace :: "string \<Rightarrow> nat" where
  "leadingSpace s =
    (case List.find (\<lambda>w. prefix w s) whiteSpace of None \<Rightarrow> 0 | Some w \<Rightarrow> length w)"

definition trailingSpace :: "string \<Rightarrow> nat" where
  "trailingSpace s =
    (case List.find (\<lambda>w. suffix w s) whiteSpace of None \<Rightarrow> 0 | Some w \<Rightarrow> length w)"

lemma whiteSpace_nonempty: "w \<in> set whiteSpace \<Longrightarrow> w \<noteq> []"
  by (auto simp: whiteSpace_def)

lemma leadingSpace_le: "leadingSpace s \<le> length s"
  by (auto simp: leadingSpace_def prefix_length_le split: option.splits dest!: find_Some_iff[THEN iffD1])

lemma trailingSpace_le: "trailingSpace s \<le> length s"
  by (auto simp: trailingSpace_def suffix_length_le split: option.splits dest!: find_Some_iff[THEN iffD1])

lemma leadingSpace_pos: "0 < leadingSpace s \<Longrightarrow> length s - leadingSpace s < length s"
  using leadingSpace_le[of s] by auto

lemma trailingSpace_pos: "0 < trailingSpace s \<Longrightarrow> length s - trailingSpace s < length s"
  using trailingSpace_le[of s] by auto

text \<open>\<^verbatim>\<open>strings.TrimLeftFunc(s, unicode.IsSpace)\<close>: drop white-space runes from the
  front until the first rune that is none.\<close>

function trimLeftSpace :: "string \<Rightarrow> string" where
  "trimLeftSpace s =
    (if leadingSpace s = 0 then s else trimLeftSpace (drop (leadingSpace s) s))"
  by pat_completeness auto
termination
  by (relation "measure length") (auto intro: leadingSpace_pos)

text \<open>\<^verbatim>\<open>strings.TrimRightFunc(s, unicode.IsSpace)\<close>: the same from the back.\<close>

function trimRightSpace :: "string \<Rightarrow> string" where
  "trimRightSpace s =
    (if trailingSpace s = 0 then s
     else trimRightSpace (take (length s - trailingSpace s) s))"
  by pat_completeness auto
termination
  by (relation "measure length") (auto intro: trailingSpace_pos)

declare trimLeftSpace.simps [simp del] trimRightSpace.simps [simp del]

text \<open>
  \<^verbatim>\<open>strings.TrimSpace\<close>: the string without its leading and trailing white space, as
  Unicode defines it. Go's ASCII fast path and its fall-back to
  \<^verbatim>\<open>TrimFunc(s, unicode.IsSpace)\<close> compute the same slice: the front is trimmed
  first, then the back of what is left.
\<close>

definition strings_TrimSpace :: "string \<Rightarrow> string" where
  "strings_TrimSpace s = trimRightSpace (trimLeftSpace s)"

text \<open>\<^verbatim>\<open>strings.HasPrefix\<close> and \<^verbatim>\<open>strings.HasSuffix\<close>.\<close>

definition strings_HasPrefix :: "string \<Rightarrow> string \<Rightarrow> bool" where
  "strings_HasPrefix s p = prefix p s"

definition strings_HasSuffix :: "string \<Rightarrow> string \<Rightarrow> bool" where
  "strings_HasSuffix s p = suffix p s"

text \<open>\<^verbatim>\<open>strings.Index(s, substr)\<close>: the byte index of the first occurrence of
  \<open>substr\<close> in \<open>s\<close>, or -1.\<close>

fun strings_Index :: "string \<Rightarrow> string \<Rightarrow> int" where
  "strings_Index [] substr = (if substr = [] then 0 else -1)"
| "strings_Index (c # cs) substr =
    (if prefix substr (c # cs) then 0
     else (let i = strings_Index cs substr in if i < 0 then -1 else i + 1))"

text \<open>\<^verbatim>\<open>strings.Split(s, sep)\<close> for a separator of one byte (the pipeline splits on
  \<^verbatim>\<open>"\n"\<close>): the pieces between the separators, in order; a string without the
  separator is its own single piece, the empty string included.\<close>

fun strings_Split :: "string \<Rightarrow> char \<Rightarrow> string list" where
  "strings_Split [] sep = [[]]"
| "strings_Split (c # cs) sep =
    (if c = sep then [] # strings_Split cs sep
     else (case strings_Split cs sep of
             [] \<Rightarrow> [[c]]
           | p # ps \<Rightarrow> (c # p) # ps))"

text \<open>
  \<^verbatim>\<open>strconv.Atoi(s)\<close>, with \<^verbatim>\<open>int\<close> of 64 bits: an optional sign \<^verbatim>\<open>+\<close> or
  \<^verbatim>\<open>-\<close>, then one or more decimal digits and nothing else. The pipeline reads only
  whether the error is nil, so the model returns \<open>None\<close> for every non-nil error (syntax
  or range) and the value otherwise.
\<close>

definition digitVal :: "char \<Rightarrow> int option" where
  "digitVal ch =
    (let n = (of_char ch :: nat) in if 48 \<le> n \<and> n \<le> 57 then Some (int n - 48) else None)"

fun digitsVal :: "string \<Rightarrow> int \<Rightarrow> int option" where
  "digitsVal [] n = Some n"
| "digitsVal (ch # s) n =
    (case digitVal ch of None \<Rightarrow> None | Some d \<Rightarrow> digitsVal s (n * 10 + d))"

definition strconv_Atoi :: "string \<Rightarrow> int option" where
  "strconv_Atoi s0 =
    (case s0 of
       [] \<Rightarrow> None
     | c # cs \<Rightarrow>
         (let s = (if c = CHR ''-'' \<or> c = CHR ''+'' then cs else s0) in
          if s = [] then None
          else (case digitsVal s 0 of
                  None \<Rightarrow> None
                | Some n \<Rightarrow>
                    (let v = (if c = CHR ''-'' then - n else n) in
                     if v < - (2 ^ 63) \<or> 2 ^ 63 - 1 < v then None else Some v))))"

section \<open>Stripping enumeration markers\<close>

text \<open>\<^verbatim>\<open>stripLeadingNumber(question, punc)\<close>. The slice \<^verbatim>\<open>ques[pos+1:]\<close> is in range
  whenever it is reached: \<^verbatim>\<open>Atoi\<close> rejects the empty prefix, so \<open>punc\<close> was found and is
  not empty.\<close>

definition stripLeadingNumber :: "string \<Rightarrow> string \<Rightarrow> string" where
  "stripLeadingNumber question punc =
    (let pos = strings_Index question punc;
         ques =
           (if pos > -1 \<and> pos \<le> 2 then
              (case strconv_Atoi (take (nat pos) question) of
                 None \<Rightarrow> question
               | Some _ \<Rightarrow> drop (nat (pos + 1)) question)
            else question)
     in strings_TrimSpace ques)"

definition stripLeadingNumbers :: "string \<Rightarrow> string" where
  "stripLeadingNumbers question =
    (let result = stripLeadingNumber question ''.'';
         result = stripLeadingNumber result '')''
     in result)"

definition parseText :: "string \<Rightarrow> string" where
  "parseText question =
    (let ques = strings_TrimSpace question;
         ques = (if strings_HasPrefix ques ''-'' then drop 1 ques else ques);
         ques = stripLeadingNumbers ques
     in strings_TrimSpace ques)"

section \<open>Numbers\<close>

text \<open>
  Go's \<^verbatim>\<open>int\<close> and \<^verbatim>\<open>int64\<close> are modelled as \<^typ>\<open>int\<close>: the pipeline only counts
  questions and draws from ranges of a few hundred values, far from 64-bit overflow.

  A \<^verbatim>\<open>float32\<close> value is modelled as the rational number it denotes. The function
  \<open>float32\<close> rounds a rational to the nearest number with a 24-bit significand, ties to
  the even significand, as IEEE 754 binary32 arithmetic and Go's conversions to
  \<^verbatim>\<open>float32\<close> do. The exponent is not bounded: overflow, subnormal numbers, infinities
  and NaN are outside the model (the pipeline computes with values between 0.1 and 275).
\<close>

type_synonym float32 = rat

text \<open>The number of binary digits of a positive integer.\<close>

function bitLen :: "int \<Rightarrow> int" where
  "bitLen n = (if n \<le> 0 then 0 else 1 + bitLen (n div 2))"
  by pat_completeness auto
termination
  by (relation "measure nat") auto

declare bitLen.simps [simp del]

text \<open>For \<open>x > 0\<close>, the exponent \<open>e\<close> with \<open>2 ^ e \<le> x < 2 ^ (e + 1)\<close>.\<close>

definition ilog2 :: "rat \<Rightarrow> int" where
  "ilog2 x =
    (let (p, q) = quotient_of x;
         e = bitLen p - bitLen q
     in if 2 powi e \<le> x then e else e - 1)"

definition roundHalfEven :: "rat \<Rightarrow> int" where
  "roundHalfEven x =
    (let f = \<lfloor>x\<rfloor>; d = x - of_int f
     in if d < 1 / 2 then f else if 1 / 2 < d then f + 1 else if even f then f else f + 1)"

definition float32 :: "rat \<Rightarrow> float32" where
  "float32 x =
    (if x = 0 then 0
     else (let ulp = 2 powi (ilog2 \<bar>x\<bar> - 23)
           in of_int (roundHalfEven (x / ulp)) * ulp))"

text \<open>The conversion \<^verbatim>\<open>int64(x)\<close> of a float: truncation toward zero.\<close>

definition int64 :: "float32 \<Rightarrow> int" where
  "int64 x = (if 0 \<le> x then \<lfloor>x\<rfloor> else \<lceil>x\<rceil>)"

text \<open>Pointers to fresh values are options: \<open>None\<close> is \<^verbatim>\<open>nil\<close>.\<close>

definition Float32Ptr :: "float32 \<Rightarrow> float32 option" where
  "Float32Ptr f = Some f"

definition IntPtr :: "int \<Rightarrow> int option" where
  "IntPtr i = Some i"

definition trimStr :: "string option \<Rightarrow> string" where
  "trimStr input = (case input of None \<Rightarrow> [] | Some s \<Rightarrow> strings_TrimSpace s)"

section \<open>The random source\<close>

text \<open>
  \<^verbatim>\<open>rand.Int(rand.Reader, bound)\<close> is the one source of randomness. A \<open>rand_source\<close>
  gives the outcome of the \<open>k\<close>-th call of a run, made with \<open>bound\<close>: \<open>Some n\<close> for the
  value \<open>n\<close>, \<open>None\<close> when reading the entropy fails and an error is returned. The number
  of calls made so far is threaded through the functions that draw. The library promises
  a value in \<open>[0, bound)\<close>; \<open>randContract\<close> states this promise. Every call of the pipeline
  has a positive bound, so the panic of \<^verbatim>\<open>rand.Int\<close> on a bound \<open>\<le> 0\<close> does not arise.
\<close>

type_synonym rand_source = "nat \<Rightarrow> int \<Rightarrow> int option"

definition randContract :: "rand_source \<Rightarrow> bool" where
  "randContract src = (\<forall>k bound n. src k bound = Some n \<longrightarrow> 0 \<le> n \<and> n < bound)"

definition random :: "rand_source \<Rightarrow> int \<Rightarrow> int \<Rightarrow> nat \<Rightarrow> int \<times> nat" where
  "random src minv maxv k =
    (case src k (maxv - minv) of
       None \<Rightarrow> (minv, Suc k)
     | Some n \<Rightarrow> (n + minv, Suc k))"

definition intPtrRand :: "rand_source \<Rightarrow> int \<Rightarrow> int \<Rightarrow> nat \<Rightarrow> int option \<times> nat" where
  "intPtrRand src minv maxv k = (let (r, k') = random src minv maxv k in (Some r, k'))"

definition float32Rand :: "rand_source \<Rightarrow> float32 \<Rightarrow> float32 \<Rightarrow> nat \<Rightarrow> float32 \<times> nat" where
  "float32Rand src minv maxv k =
    (let (r, k') = random src (int64 (float32 (minv * 100))) (int64 (float32 (maxv * 100))) k;
         r2 = float32 (float32 (of_int r) / float32 100)
     in (r2, k'))"

definition float32PtrRand ::
  "rand_source \<Rightarrow> float32 \<Rightarrow> float32 \<Rightarrow> nat \<Rightarrow> float32 option \<times> nat" where
  "float32PtrRand src minv maxv k = (let (r2, k') = float32Rand src minv maxv k in (Some r2, k'))"

section \<open>Data model\<close>

text \<open>
  Modelled from the spec: the request and response types of the completion service
  (\<^verbatim>\<open>CompletionRequest\<close>, \<^verbatim>\<open>CompletionResponse\<close>, \<^verbatim>\<open>CompletionChoice\<close>) are declared
  outside the two source files. The spec lists the request's inputs as model identifier,
  prompt text, echo flag, frequency and presence penalties, max tokens, N, stream flag,
  temperature, top-p and user identifier, and the output as a sequence of choices, each
  carrying generated text. The records hold the fields the pipeline sets and reads.
\<close>

record CompletionRequest =
  Model :: string
  Prompt :: string
  MaxTokens :: int
  Temperature :: float32
  TopP :: float32
  N :: int
  Stream :: bool
  Echo :: bool
  PresencePenalty :: float32
  FrequencyPenalty :: float32
  User :: string

record CompletionChoice =
  Text :: string

record CompletionResponse =
  Choices :: "CompletionChoice list"

definition InterviewDefaultCap :: int where
  "InterviewDefaultCap = 5"

definition InterviewDefaultEngine :: string where
  "InterviewDefaultEngine = ''text-davinci-001''"

definition InterviewMaxCap :: int where
  "InterviewMaxCap = 50"

record InterviewInput =
  JobTitle :: "string option"
  JobDescription :: "string option"

record InterviewOptions =
  Cap :: "int option"
  Shuffle :: bool

record InterviewRequestSettings =
  Engine :: string
  FrequencyPenalty :: float32
  MaxTokens :: "int option"
  PresencePenalty :: float32
  Temperature :: "float32 option"
  TopP :: "float32 option"
  User :: string

record InterviewRequest =
  Prompt :: string
  Settings :: InterviewRequestSettings

record InterviewQuestion =
  Index :: int
  Question :: string

text \<open>A slice is a list; the \<^verbatim>\<open>nil\<close> slice is the empty list. \<open>Duration\<close> is in
  nanoseconds.\<close>

record InterviewResponse =
  Request :: InterviewRequest
  Duration :: int
  Options :: "InterviewOptions option"
  Questions :: "InterviewQuestion list"

text \<open>
  A Go \<^verbatim>\<open>error\<close> value is either built by \<^verbatim>\<open>errors.New\<close> from a message, or some
  other error, which the pipeline hands on without looking at it. A function fails by
  returning an error or by a run-time panic.
\<close>

datatype error = errors_New string | otherError nat

datatype panic = NilDereference | IndexOutOfRange

datatype failure = Panic panic | Err error

text \<open>The two errors of the orchestrator's validation, under the spec's names.\<close>

definition InvalidInput :: error where
  "InvalidInput = errors_New ''must specify a job title or description''"

definition MissingSettings :: error where
  "MissingSettings = errors_New ''request settings are required''"

definition GetCap :: "InterviewOptions \<Rightarrow> int" where
  "GetCap opts =
    (let capped = InterviewDefaultCap;
         capped = (case Cap opts of None \<Rightarrow> capped | Some c \<Rightarrow> c);
         capped = (if capped > InterviewMaxCap then InterviewMaxCap else capped)
     in capped)"

text \<open>\<^verbatim>\<open>HasQuestions\<close> on a response pointer.\<close>

definition HasQuestions :: "InterviewResponse option \<Rightarrow> bool" where
  "HasQuestions r =
    (case r of
       None \<Rightarrow> False
     | Some resp \<Rightarrow> Questions resp \<noteq> [] \<and> length (Questions resp) > 0)"

section \<open>Prompt\<close>

text \<open>\<^verbatim>\<open>newLineRe.ReplaceAllString(input, " ")\<close> for the expression \<^verbatim>\<open>\r?\n\<close>: from
  left to right, a line feed with the carriage return before it, if there is one,
  becomes one space.\<close>

fun replaceNewLines :: "string \<Rightarrow> string" where
  "replaceNewLines (c # d # s) =
    (if c = CHR 0x0D \<and> d = CHR 0x0A then CHR '' '' # replaceNewLines s
     else if c = CHR 0x0A then CHR '' '' # replaceNewLines (d # s)
     else c # replaceNewLines (d # s))"
| "replaceNewLines [c] = (if c = CHR 0x0A then [CHR '' ''] else [c])"
| "replaceNewLines [] = []"

text \<open>\<^verbatim>\<open>strings.ReplaceAll(output, bullet, "")\<close>, the bullet U+2022 being the bytes
  E2 80 A2.\<close>

fun removeBullets :: "string \<Rightarrow> string" where
  "removeBullets (a # b # c # s) =
    (if a = CHR 0xE2 \<and> b = CHR 0x80 \<and> c = CHR 0xA2 then removeBullets s
     else a # removeBullets (b # c # s))"
| "removeBullets s = s"

definition formatInterviewInput :: "string \<Rightarrow> string" where
  "formatInterviewInput input =
    (let output = replaceNewLines input;
         output = removeBullets output
     in output)"

definition getInterviewPrompt :: "string \<Rightarrow> string \<Rightarrow> string" where
  "getInterviewPrompt jobTitle jobDesc =
    (if length jobTitle > 0 \<and> length jobDesc > 0 then
       ''Create a list of questions for my interview with a '' @ formatInterviewInput jobTitle
         @ '', '' @ formatInterviewInput jobDesc
     else if length jobTitle > 0 then
       ''Create a list of questions for my interview with a '' @ formatInterviewInput jobTitle
     else if length jobDesc > 0 then
       ''Create a list of questions for my interview with a job description of ''
         @ formatInterviewInput jobDesc
     else [])"

section \<open>Settings\<close>

definition NewInterviewOptions :: "int \<Rightarrow> InterviewOptions" where
  "NewInterviewOptions cap = \<lparr>Cap = IntPtr cap, Shuffle = False\<rparr>"

definition NewInterviewSettings :: "string \<Rightarrow> InterviewRequestSettings" where
  "NewInterviewSettings user =
    \<lparr>Engine = InterviewDefaultEngine,
     FrequencyPenalty = float32 (75 / 100),
     MaxTokens = IntPtr 175,
     PresencePenalty = float32 (7 / 10),
     Temperature = Float32Ptr (float32 1),
     TopP = Float32Ptr (float32 (85 / 100)),
     User = user\<rparr>"

text \<open>The draws happen in the order of the source text: top-p, the selector, the
  temperature when the selector asks for it, then the fields of the literal from top to
  bottom.\<close>

definition NewInterviewSettingsRand ::
  "rand_source \<Rightarrow> string \<Rightarrow> nat \<Rightarrow> InterviewRequestSettings \<times> nat" where
  "NewInterviewSettingsRand src user k0 =
    (let temp = Float32Ptr (float32 1);
         (topP, k1) = float32PtrRand src (float32 (3 / 10)) (float32 (9 / 10)) k0;
         (rTempTop, k2) = random src 1 10 k1;
         (temp, topP, k3) =
           (if rTempTop > 7 then
              (let (t, k) = float32PtrRand src (float32 (3 / 10)) (float32 (9 / 10)) k2
               in (t, Float32Ptr (float32 1), k))
            else (temp, topP, k2));
         (frequencyPenalty, k4) = float32Rand src (float32 (2 / 10)) (float32 (85 / 100)) k3;
         (maxTokens, k5) = intPtrRand src 175 275 k4;
         (presencePenalty, k6) = float32Rand src (float32 (1 / 10)) (float32 (8 / 10)) k5
     in (\<lparr>Engine = InterviewDefaultEngine,
          FrequencyPenalty = frequencyPenalty,
          MaxTokens = maxTokens,
          PresencePenalty = presencePenalty,
          Temperature = temp,
          TopP = topP,
          User = user\<rparr>, k6))"

text \<open>\<^verbatim>\<open>mapInterviewSettings\<close> dereferences three pointers of the settings; a
  \<^verbatim>\<open>nil\<close> one panics.\<close>

definition mapInterviewSettings ::
  "InterviewRequestSettings \<Rightarrow> string \<Rightarrow> failure + CompletionRequest" where
  "mapInterviewSettings settings prompt =
    (case MaxTokens settings of
       None \<Rightarrow> Inl (Panic NilDereference)
     | Some maxTokens \<Rightarrow>
    (case Temperature settings of
       None \<Rightarrow> Inl (Panic NilDereference)
     | Some temperature \<Rightarrow>
    (case TopP settings of
       None \<Rightarrow> Inl (Panic NilDereference)
     | Some topP \<Rightarrow>
         Inr \<lparr>CompletionRequest.Model = Engine settings,
              CompletionRequest.Prompt = prompt,
              CompletionRequest.MaxTokens = maxTokens,
              CompletionRequest.Temperature = temperature,
              CompletionRequest.TopP = topP,
              CompletionRequest.N = 1,
              CompletionRequest.Stream = False,
              CompletionRequest.Echo = False,
              CompletionRequest.PresencePenalty = PresencePenalty settings,
              CompletionRequest.FrequencyPenalty = FrequencyPenalty settings,
              CompletionRequest.User = User settings\<rparr>)))"

section \<open>Shuffling and parsing\<close>

text \<open>
  \<^verbatim>\<open>Shuffle\<close> permutes the slice in place. \<open>shuffleLoop src n questions k\<close> is the
  loop at the moment the slice variable has length \<open>n\<close>: it draws \<open>randIndex\<close>, swaps
  the elements at \<open>n - 1\<close> and \<open>randIndex\<close> and goes on with the first \<open>n - 1\<close>
  elements. An index outside the slice panics.
\<close>

fun shuffleLoop ::
  "rand_source \<Rightarrow> nat \<Rightarrow> InterviewQuestion list \<Rightarrow> nat
    \<Rightarrow> (failure + InterviewQuestion list) \<times> nat" where
  "shuffleLoop src 0 questions k = (Inr questions, k)"
| "shuffleLoop src (Suc m) questions k =
    (let (randIndex, k') = random src 0 (int (Suc m)) k
     in if randIndex < 0 \<or> int (Suc m) \<le> randIndex then (Inl (Panic IndexOutOfRange), k')
        else shuffleLoop src m
               (questions[m := questions ! nat randIndex, nat randIndex := questions ! m]) k')"

definition Shuffle ::
  "rand_source \<Rightarrow> InterviewQuestion list \<Rightarrow> nat
    \<Rightarrow> (failure + InterviewQuestion list) \<times> nat" where
  "Shuffle src questions k = shuffleLoop src (length questions) questions k"

text \<open>The loop of \<^verbatim>\<open>parseInterviewChoice\<close> over the pieces of the text; \<open>data\<close> is the
  slice built so far.\<close>

fun parseParts :: "string list \<Rightarrow> InterviewQuestion list \<Rightarrow> InterviewQuestion list" where
  "parseParts [] data = data"
| "parseParts (part # parts) data =
    (if length part > 0 \<and> strings_HasSuffix part ''?'' then
       (let ques = parseText part
        in parseParts parts (data @ [\<lparr>Index = int (length data) + 1, Question = ques\<rparr>]))
     else parseParts parts data)"

definition parseInterviewChoice ::
  "rand_source \<Rightarrow> CompletionChoice \<Rightarrow> bool \<Rightarrow> nat
    \<Rightarrow> (failure + InterviewQuestion list) \<times> nat" where
  "parseInterviewChoice src ch shuffle k =
    (if length (Text ch) = 0 then (Inr [], k)
     else (let parts = strings_Split (Text ch) (CHR 0x0A);
               data = parseParts parts []
           in if length data = 0 then (Inr [], k)
              else if shuffle then Shuffle src data k
              else (Inr data, k)))"

section \<open>The orchestrator\<close>

text \<open>The inner loop of \<^verbatim>\<open>InterviewQuestions\<close>: append the items of one choice to
  \<^verbatim>\<open>result.Questions\<close>, renumbering them, until the length equals the cap.\<close>

fun appendItems ::
  "int \<Rightarrow> InterviewQuestion list \<Rightarrow> InterviewQuestion list \<Rightarrow> InterviewQuestion list" where
  "appendItems quesCap [] questions = questions"
| "appendItems quesCap (qu # items) questions =
    (if int (length questions) = quesCap then questions
     else appendItems quesCap items
            (questions @ [qu\<lparr>Index := int (length questions) + 1\<rparr>]))"

text \<open>The outer loop, over the choices of the response.\<close>

fun appendChoices ::
  "rand_source \<Rightarrow> bool \<Rightarrow> int \<Rightarrow> CompletionChoice list \<Rightarrow> InterviewQuestion list \<Rightarrow> nat
    \<Rightarrow> (failure + InterviewQuestion list) \<times> nat" where
  "appendChoices src shuffle quesCap [] questions k = (Inr questions, k)"
| "appendChoices src shuffle quesCap (ch # chs) questions k =
    (case parseInterviewChoice src ch shuffle k of
       (Inl f, k') \<Rightarrow> (Inl f, k')
     | (Inr items, k') \<Rightarrow>
         appendChoices src shuffle quesCap chs (appendItems quesCap items questions) k')"

text \<open>
  What one call of \<^verbatim>\<open>InterviewQuestions\<close> leaves behind: what it returns (a response
  with a nil error, or a failure), the caller's settings object after the call (the
  default engine is written into it), the requests passed to \<^verbatim>\<open>CreateCompletion\<close>
  in order, and the number of random draws made so far.
\<close>

record InterviewRun =
  returned :: "failure + InterviewResponse"
  settingsAfter :: "InterviewRequestSettings option"
  requests :: "CompletionRequest list"
  draws :: nat

text \<open>
  \<^verbatim>\<open>Client.CreateCompletion\<close> is outside the two source files: it is the parameter
  \<open>CreateCompletion\<close>, which answers a request with a response or an error (the context
  and its cancellation are part of that answer). \<open>start\<close> and \<open>finish\<close> are the readings
  of the clock by \<^verbatim>\<open>time.Now\<close> and \<^verbatim>\<open>time.Since\<close>.
\<close>

definition InterviewQuestions ::
  "(CompletionRequest \<Rightarrow> error + CompletionResponse) \<Rightarrow> rand_source \<Rightarrow> int \<Rightarrow> int
    \<Rightarrow> InterviewInput \<Rightarrow> InterviewRequestSettings option \<Rightarrow> InterviewOptions option \<Rightarrow> nat
    \<Rightarrow> InterviewRun" where
  "InterviewQuestions CreateCompletion src start finish input settings options k =
    (let jobTitle = trimStr (JobTitle input);
         jobDesc = trimStr (JobDescription input)
     in
     if length jobTitle = 0 \<and> length jobDesc = 0 then
       \<lparr>returned = Inl (Err (errors_New ''must specify a job title or description'')),
        settingsAfter = settings, requests = [], draws = k\<rparr>
     else
     (case settings of
        None \<Rightarrow>
          \<lparr>returned = Inl (Err (errors_New ''request settings are required'')),
           settingsAfter = settings, requests = [], draws = k\<rparr>
      | Some settings0 \<Rightarrow>
     (let settings1 =
            (if length (Engine settings0) = 0
             then settings0\<lparr>Engine := InterviewDefaultEngine\<rparr> else settings0);
          options1 =
            (case options of
               None \<Rightarrow> NewInterviewOptions InterviewDefaultCap
             | Some opts \<Rightarrow> opts);
          prompt = getInterviewPrompt jobTitle jobDesc
      in
      (case mapInterviewSettings settings1 prompt of
         Inl f \<Rightarrow>
           \<lparr>returned = Inl f, settingsAfter = Some settings1, requests = [], draws = k\<rparr>
       | Inr request \<Rightarrow>
      (let quesCap = GetCap options1
       in
       (case CreateCompletion request of
          Inl err \<Rightarrow>
            \<lparr>returned = Inl (Err err), settingsAfter = Some settings1,
             requests = [request], draws = k\<rparr>
        | Inr resp \<Rightarrow>
       (case appendChoices src (InterviewOptions.Shuffle options1) quesCap (Choices resp) [] k of
          (Inl f, k') \<Rightarrow>
            \<lparr>returned = Inl f, settingsAfter = Some settings1,
             requests = [request], draws = k'\<rparr>
        | (Inr questions, k') \<Rightarrow>
            \<lparr>returned =
               Inr \<lparr>Request = \<lparr>Prompt = prompt, Settings = settings1\<rparr>,
                    Duration = finish - start,
                    Options = Some options1,
                    Questions = questions\<rparr>,
             settingsAfter = Some settings1,
             requests = [request], draws = k'\<rparr>)))))))"

section \<open>Notions the statements use\<close>

text \<open>A decimal digit, and the prefixes of at most two bytes that \<^verbatim>\<open>strconv.Atoi\<close>
  accepts: one or two digits, or a sign followed by one digit.\<close>

definition isDigit :: "char \<Rightarrow> bool" where
  "isDigit c = (c \<in> set ''0123456789'')"

definition enumPrefix :: "string \<Rightarrow> bool" where
  "enumPrefix pre =
    (case pre of
       [a] \<Rightarrow> isDigit a
     | [a, b] \<Rightarrow> (isDigit a \<or> a = CHR ''+'' \<or> a = CHR ''-'') \<and> isDigit b
     | _ \<Rightarrow> False)"

text \<open>A line starts with an enumeration marker for the punctuation \<open>p\<close> when \<open>p\<close> occurs
  in it and what stands before its first occurrence is such a prefix.\<close>

definition leadingMarker :: "string \<Rightarrow> char \<Rightarrow> bool" where
  "leadingMarker q p =
    (let pre = takeWhile (\<lambda>c. c \<noteq> p) q
     in pre \<noteq> q \<and> length pre \<le> 2 \<and> enumPrefix pre)"

text \<open>A text that is not empty and whose last byte is the question mark.\<close>

definition endsWithQuestionMark :: "string \<Rightarrow> bool" where
  "endsWithQuestionMark s = (s \<noteq> [] \<and> last s = CHR ''?'')"

text \<open>The text whose lines are \<open>ls\<close>, each terminated by carriage return and line feed.\<close>

definition crlfLines :: "string list \<Rightarrow> string" where
  "crlfLines ls = concat (map (\<lambda>l. l @ [CHR 0x0D, CHR 0x0A]) ls)"

text \<open>A text has a line terminated by a question mark when a question mark stands at its
  end or right before a line feed.\<close>

definition hasQuestionLine :: "string \<Rightarrow> bool" where
  "hasQuestionLine text = (suffix ''?'' text \<or> sublist [CHR ''?'', CHR 0x0A] text)"

text \<open>The effective cap in the words of the spec: the smaller of the requested cap and the
  ceiling 50 when a cap is supplied, 5 when no options or no cap is supplied.\<close>

definition effectiveCap :: "InterviewOptions option \<Rightarrow> int" where
  "effectiveCap options =
    (case options of
       None \<Rightarrow> 5
     | Some opts \<Rightarrow> (case Cap opts of None \<Rightarrow> 5 | Some c \<Rightarrow> min c 50))"

text \<open>Stand-ins for the two collaborators. \<open>constSource v\<close> is a random source that
  returns \<open>v\<close> whenever \<open>v\<close> lies in the requested range and fails to read otherwise;
  \<open>answerWith texts\<close> is a completion service that answers every request with one choice
  per text. \<open>developer\<close> is an input with a job title only.\<close>

definition constSource :: "int \<Rightarrow> rand_source" where
  "constSource v k bound = (if 0 \<le> v \<and> v < bound then Some v else None)"

definition answerWith :: "string list \<Rightarrow> CompletionRequest \<Rightarrow> error + CompletionResponse" where
  "answerWith texts request = Inr \<lparr>Choices = map (\<lambda>t. \<lparr>Text = t\<rparr>) texts\<rparr>"

definition developer :: InterviewInput where
  "developer = \<lparr>JobTitle = Some ''dev'', JobDescription = None\<rparr>"

text \<open>The randomized band of a sampling control, a control held at its neutral value 1.0,
  and a control inside the band.\<close>

definition inBand :: "float32 \<Rightarrow> bool" where
  "inBand v = (3 / 10 \<le> v \<and> v < 9 / 10)"

definition pinned :: "float32 option \<Rightarrow> bool" where
  "pinned p = (p = Some 1)"

definition randomized :: "float32 option \<Rightarrow> bool" where
  "randomized p = (case p of None \<Rightarrow> False | Some v \<Rightarrow> inBand v)"

text \<open>Whether the diversity profile takes the temperature branch when every call of
  \<^verbatim>\<open>rand.Int\<close> returns \<open>n\<close>, so that the selector draws \<open>n + 1\<close>.\<close>

definition selectsTemperature :: "int \<Rightarrow> bool" where
  "selectsTemperature n =
    (let settings = fst (NewInterviewSettingsRand (constSource n) ''u'' 0)
     in pinned (TopP settings) \<and> randomized (Temperature settings))"

section \<open>Trimming\<close>

lemma find_whiteSpace_mem: "List.find P whiteSpace = Some w \<Longrightarrow> w \<in> set whiteSpace \<and> P w"
  by (auto simp: find_Some_iff)

lemma leadingSpace_zero_iff: "leadingSpace s = 0 \<longleftrightarrow> (\<forall>w\<in>set whiteSpace. \<not> prefix w s)"
proof (cases "List.find (\<lambda>w. prefix w s) whiteSpace")
  case None
  have "leadingSpace s = 0" by (simp add: leadingSpace_def None)
  moreover from None have "\<forall>w\<in>set whiteSpace. \<not> prefix w s" by (simp add: find_None_iff)
  ultimately show ?thesis by simp
next
  case (Some w)
  have "leadingSpace s = length w" by (simp add: leadingSpace_def Some)
  with find_whiteSpace_mem[OF Some] whiteSpace_nonempty[of w] show ?thesis by auto
qed

lemma trailingSpace_zero_iff: "trailingSpace s = 0 \<longleftrightarrow> (\<forall>w\<in>set whiteSpace. \<not> suffix w s)"
proof (cases "List.find (\<lambda>w. suffix w s) whiteSpace")
  case None
  have "trailingSpace s = 0" by (simp add: trailingSpace_def None)
  moreover from None have "\<forall>w\<in>set whiteSpace. \<not> suffix w s" by (simp add: find_None_iff)
  ultimately show ?thesis by simp
next
  case (Some w)
  have "trailingSpace s = length w" by (simp add: trailingSpace_def Some)
  with find_whiteSpace_mem[OF Some] whiteSpace_nonempty[of w] show ?thesis by auto
qed

lemma leadingSpace_prefix:
  "leadingSpace s \<noteq> 0 \<Longrightarrow> \<exists>w\<in>set whiteSpace. prefix w s \<and> leadingSpace s = length w"
proof (cases "List.find (\<lambda>w. prefix w s) whiteSpace")
  case None
  moreover assume "leadingSpace s \<noteq> 0"
  ultimately show ?thesis by (simp add: leadingSpace_def)
next
  case (Some w)
  have "leadingSpace s = length w" by (simp add: leadingSpace_def Some)
  with find_whiteSpace_mem[OF Some] show ?thesis by auto
qed

lemma trailingSpace_suffix:
  "trailingSpace s \<noteq> 0 \<Longrightarrow> \<exists>w\<in>set whiteSpace. suffix w s \<and> trailingSpace s = length w"
proof (cases "List.find (\<lambda>w. suffix w s) whiteSpace")
  case None
  moreover assume "trailingSpace s \<noteq> 0"
  ultimately show ?thesis by (simp add: trailingSpace_def)
next
  case (Some w)
  have "trailingSpace s = length w" by (simp add: trailingSpace_def Some)
  with find_whiteSpace_mem[OF Some] show ?thesis by auto
qed

lemma trimLeftSpace_leading [simp]: "leadingSpace (trimLeftSpace s) = 0"
  by (induction s rule: trimLeftSpace.induct) (subst trimLeftSpace.simps, simp)

lemma trimRightSpace_trailing [simp]: "trailingSpace (trimRightSpace s) = 0"
  by (induction s rule: trimRightSpace.induct) (subst trimRightSpace.simps, simp)

lemma trimRightSpace_prefix: "prefix (trimRightSpace s) s"
proof (induction s rule: trimRightSpace.induct)
  case (1 s)
  show ?case
  proof (cases "trailingSpace s = 0")
    case True
    then show ?thesis by (subst trimRightSpace.simps) simp
  next
    case False
    with 1 have "prefix (trimRightSpace (take (length s - trailingSpace s) s))
                   (take (length s - trailingSpace s) s)" by simp
    then have "prefix (trimRightSpace (take (length s - trailingSpace s) s)) s"
      using take_is_prefix prefix_order.trans by blast
    with False show ?thesis by (subst trimRightSpace.simps) simp
  qed
qed

lemma trimLeftSpace_fixed: "leadingSpace s = 0 \<Longrightarrow> trimLeftSpace s = s"
  by (subst trimLeftSpace.simps) simp

lemma trimRightSpace_fixed: "trailingSpace s = 0 \<Longrightarrow> trimRightSpace s = s"
  by (subst trimRightSpace.simps) simp

lemma leadingSpace_prefix_closed:
  "leadingSpace s = 0 \<Longrightarrow> prefix t s \<Longrightarrow> leadingSpace t = 0"
  unfolding leadingSpace_zero_iff using prefix_order.trans by blast

lemma TrimSpace_leading [simp]: "leadingSpace (strings_TrimSpace s) = 0"
  unfolding strings_TrimSpace_def
  by (rule leadingSpace_prefix_closed[OF trimLeftSpace_leading trimRightSpace_prefix])

lemma TrimSpace_trailing [simp]: "trailingSpace (strings_TrimSpace s) = 0"
  unfolding strings_TrimSpace_def by simp

lemma TrimSpace_fixed:
  "leadingSpace s = 0 \<Longrightarrow> trailingSpace s = 0 \<Longrightarrow> strings_TrimSpace s = s"
  by (simp add: strings_TrimSpace_def trimLeftSpace_fixed trimRightSpace_fixed)

lemma TrimSpace_idem [simp]: "strings_TrimSpace (strings_TrimSpace s) = strings_TrimSpace s"
  by (rule TrimSpace_fixed) simp_all

section \<open>Atoi and the first occurrence of a byte\<close>

lemma char_of_digits:
  "char_of (48::nat) = CHR ''0''" "char_of (49::nat) = CHR ''1''" "char_of (50::nat) = CHR ''2''"
  "char_of (51::nat) = CHR ''3''" "char_of (52::nat) = CHR ''4''" "char_of (53::nat) = CHR ''5''"
  "char_of (54::nat) = CHR ''6''" "char_of (55::nat) = CHR ''7''" "char_of (56::nat) = CHR ''8''"
  "char_of (57::nat) = CHR ''9''"
  by (simp_all add: char_of_def bit_iff_odd_drop_bit drop_bit_eq_div)

lemma of_char_digit:
  assumes "48 \<le> (of_char c :: nat)" "(of_char c :: nat) \<le> 57"
  shows "isDigit c"
proof -
  define n where "n = (of_char c :: nat)"
  have c: "c = char_of n" by (simp add: n_def)
  from assms have "n = 48 \<or> n = 49 \<or> n = 50 \<or> n = 51 \<or> n = 52 \<or> n = 53 \<or> n = 54 \<or> n = 55
      \<or> n = 56 \<or> n = 57"
    unfolding n_def[symmetric] by arith
  then show ?thesis unfolding c isDigit_def
    by (elim disjE) (simp_all add: char_of_digits)
qed

lemma digitVal_isDigit: "digitVal c \<noteq> None \<longleftrightarrow> isDigit c"
proof
  assume "digitVal c \<noteq> None"
  then have "48 \<le> (of_char c :: nat)" "(of_char c :: nat) \<le> 57"
    by (auto simp: digitVal_def Let_def split: if_splits)
  then show "isDigit c" by (rule of_char_digit)
next
  assume "isDigit c"
  then show "digitVal c \<noteq> None" by (auto simp: isDigit_def digitVal_def)
qed


lemma digitVal_range: "digitVal c = Some d \<Longrightarrow> 0 \<le> d \<and> d \<le> 9"
  by (auto simp: digitVal_def Let_def split: if_splits)

lemma digitVal_sign: "digitVal (CHR ''-'') = None" "digitVal (CHR ''+'') = None"
  by (simp_all add: digitVal_def)

lemma isDigit_sign: "\<not> isDigit (CHR ''-'')" "\<not> isDigit (CHR ''+'')"
  by (simp_all add: isDigit_def)

lemma digitVal_None: "digitVal c = None \<longleftrightarrow> \<not> isDigit c"
  using digitVal_isDigit[of c] by auto

lemma Atoi_one: "strconv_Atoi [a] \<noteq> None \<longleftrightarrow> isDigit a"
proof (cases "digitVal a")
  case None
  then show ?thesis
    by (simp add: strconv_Atoi_def digitVal_None[symmetric])
next
  case (Some d)
  then have "isDigit a" using digitVal_isDigit[of a] by simp
  moreover from this have "a \<noteq> CHR ''-''" "a \<noteq> CHR ''+''" using isDigit_sign by auto
  ultimately show ?thesis using Some digitVal_range[OF Some]
    by (simp add: strconv_Atoi_def)
qed

lemma Atoi_two:
  "strconv_Atoi [a, b] \<noteq> None \<longleftrightarrow> (isDigit a \<or> a = CHR ''+'' \<or> a = CHR ''-'') \<and> isDigit b"
proof (cases "digitVal b")
  case None
  then have "\<not> isDigit b" by (simp add: digitVal_None)
  with None show ?thesis
    by (simp add: strconv_Atoi_def split: option.splits)
next
  case b: (Some e)
  then have db: "isDigit b" using digitVal_isDigit[of b] by simp
  show ?thesis
  proof (cases "a = CHR ''-'' \<or> a = CHR ''+''")
    case True
    with b digitVal_range[OF b] db show ?thesis
      by (auto simp: strconv_Atoi_def)
  next
    case False
    show ?thesis
    proof (cases "digitVal a")
      case None
      then have "\<not> isDigit a" by (simp add: digitVal_None)
      with None False show ?thesis by (simp add: strconv_Atoi_def)
    next
      case (Some d)
      then have "isDigit a" using digitVal_isDigit[of a] by simp
      with Some b False digitVal_range[OF Some] digitVal_range[OF b] db show ?thesis
        by (simp add: strconv_Atoi_def)
    qed
  qed
qed

lemma Atoi_short: "length pre \<le> 2 \<Longrightarrow> strconv_Atoi pre \<noteq> None \<longleftrightarrow> enumPrefix pre"
proof (cases pre)
  case Nil
  then show ?thesis by (simp add: strconv_Atoi_def enumPrefix_def)
next
  case (Cons a as)
  assume len: "length pre \<le> 2"
  show ?thesis
  proof (cases as)
    case Nil
    with Cons show ?thesis using Atoi_one[of a] by (simp add: enumPrefix_def)
  next
    case (Cons b bs)
    with len \<open>pre = a # as\<close> have bs: "bs = []" by simp
    show ?thesis unfolding \<open>pre = a # as\<close> Cons bs using Atoi_two[of a b]
      by (simp add: enumPrefix_def)
  qed
qed


lemma Index_char:
  "strings_Index q [p] = (if p \<in> set q then int (length (takeWhile (\<lambda>c. c \<noteq> p) q)) else -1)"
  by (induction q) (auto simp: Let_def)

lemma stripLeadingNumber_char:
  "stripLeadingNumber q [p] =
    (if leadingMarker q p
     then strings_TrimSpace (drop (Suc (length (takeWhile (\<lambda>c. c \<noteq> p) q))) q)
     else strings_TrimSpace q)"
proof (cases "p \<in> set q")
  case False
  then have "takeWhile (\<lambda>c. c \<noteq> p) q = q" by (auto simp: takeWhile_eq_all_conv)
  with False show ?thesis
    by (simp add: stripLeadingNumber_def Index_char leadingMarker_def)
next
  case True
  let ?pre = "takeWhile (\<lambda>c. c \<noteq> p) q"
  from True have ne: "?pre \<noteq> q" by (auto simp: takeWhile_eq_all_conv)
  have tk: "take (length ?pre) q = ?pre"
    by (metis append_eq_conv_conj takeWhile_dropWhile_id)
  show ?thesis
  proof (cases "length ?pre \<le> 2")
    case False
    with True show ?thesis
      by (simp add: stripLeadingNumber_def Index_char leadingMarker_def Let_def)
  next
    case le: True
    show ?thesis
    proof (cases "strconv_Atoi ?pre")
      case None
      with Atoi_short[OF le] have "\<not> enumPrefix ?pre" by simp
      with None True le tk show ?thesis
        by (simp add: stripLeadingNumber_def Index_char leadingMarker_def Let_def)
    next
      case (Some v)
      with Atoi_short[OF le] have "enumPrefix ?pre" by simp
      with Some True le tk ne show ?thesis
        by (simp add: stripLeadingNumber_def Index_char leadingMarker_def Let_def nat_add_distrib)
    qed
  qed
qed

section \<open>The single-marker stripper\<close>

lemma takeWhile_first: "p \<notin> set pre \<Longrightarrow> takeWhile (\<lambda>c. c \<noteq> p) (pre @ p # rest) = pre"
  by (induction pre) auto

text \<open>
  Claim C5, as amended. For a punctuation byte \<open>p\<close>, \<open>stripLeadingNumber\<close> removes the
  prefix through the first \<open>p\<close> exactly when at most two bytes stand before it and
  \<^verbatim>\<open>strconv.Atoi\<close> accepts them: one or two decimal digits, or a sign \<^verbatim>\<open>+\<close> or
  \<^verbatim>\<open>-\<close> followed by one digit. What is left is trimmed. In every other case, a line
  without \<open>p\<close> included, the result is the trimmed line. A prefix that is a negative
  number, such as \<^verbatim>\<open>-1\<close>, is therefore removed as well.
\<close>

theorem stripLeadingNumber_marker:
  "(p \<notin> set pre \<longrightarrow>
      stripLeadingNumber (pre @ p # rest) [p] =
        (if length pre \<le> 2 \<and> enumPrefix pre then strings_TrimSpace rest
         else strings_TrimSpace (pre @ p # rest)))
   \<and> (p \<notin> set q \<longrightarrow> stripLeadingNumber q [p] = strings_TrimSpace q)"
proof (intro conjI impI)
  assume "p \<notin> set pre"
  then have tw: "takeWhile (\<lambda>c. c \<noteq> p) (pre @ p # rest) = pre" by (rule takeWhile_first)
  show "stripLeadingNumber (pre @ p # rest) [p] =
        (if length pre \<le> 2 \<and> enumPrefix pre then strings_TrimSpace rest
         else strings_TrimSpace (pre @ p # rest))"
    by (simp add: stripLeadingNumber_char leadingMarker_def tw)
next
  assume "p \<notin> set q"
  then have "takeWhile (\<lambda>c. c \<noteq> p) q = q" by (auto simp: takeWhile_eq_all_conv)
  then show "stripLeadingNumber q [p] = strings_TrimSpace q"
    by (simp add: stripLeadingNumber_char leadingMarker_def)
qed

text \<open>The theorem at three lines: a two-digit marker, a prefix that is no number, and a
  line without the punctuation.\<close>

theorem stripLeadingNumber_marker_witness:
  "stripLeadingNumber ''12) Why?'' '')'' = ''Why?'' \<and>
   stripLeadingNumber ''a1) Why?'' '')'' = ''a1) Why?'' \<and>
   stripLeadingNumber '' Why? '' '')'' = ''Why?''"
proof -
  have t1: "strings_TrimSpace '' Why?'' = ''Why?''" by code_simp
  have t2: "strings_TrimSpace ''a1) Why?'' = ''a1) Why?''" by code_simp
  have t3: "strings_TrimSpace '' Why? '' = ''Why?''" by code_simp
  have e1: "enumPrefix ''12''" by code_simp
  have e2: "\<not> enumPrefix ''a1''" by code_simp
  from stripLeadingNumber_marker[of "CHR '')''" "''12''" "'' Why?''" "'' Why? ''"]
       stripLeadingNumber_marker[of "CHR '')''" "''a1''" "'' Why?''" "'' Why? ''"]
  show ?thesis by (simp add: t1 t2 t3 e1 e2)
qed

text \<open>Claim C5 as stated fails: the prefix \<^verbatim>\<open>-1\<close> parses as the negative integer -1,
  and the line is stripped, not only trimmed.\<close>

theorem stripLeadingNumber_negative_counterexample:
  "strconv_Atoi ''-1'' = Some (- 1) \<and>
   stripLeadingNumber ''-1. Why?'' ''.'' = ''Why?'' \<and>
   stripLeadingNumber ''-1. Why?'' ''.'' \<noteq> strings_TrimSpace ''-1. Why?''"
  by code_simp

section \<open>Enumeration stripping\<close>

lemma trimLeftSpace_length: "length (trimLeftSpace s) \<le> length s"
proof (induction s rule: trimLeftSpace.induct)
  case (1 s)
  show ?case
  proof (cases "leadingSpace s = 0")
    case True
    then show ?thesis by (subst trimLeftSpace.simps) simp
  next
    case False
    with 1 have "length (trimLeftSpace (drop (leadingSpace s) s)) \<le> length (drop (leadingSpace s) s)"
      by simp
    with False show ?thesis by (subst trimLeftSpace.simps) simp
  qed
qed

lemma TrimSpace_length: "length (strings_TrimSpace s) \<le> length s"
  unfolding strings_TrimSpace_def
  using prefix_length_le[OF trimRightSpace_prefix[of "trimLeftSpace s"]] trimLeftSpace_length[of s]
  by linarith

lemma stripLeadingNumber_length: "length (stripLeadingNumber q [p]) \<le> length q"
  using TrimSpace_length[of q]
    TrimSpace_length[of "drop (Suc (length (takeWhile (\<lambda>c. c \<noteq> p) q))) q"]
  by (auto simp: stripLeadingNumber_char)

lemma stripLeadingNumber_shorter:
  "leadingMarker q p \<Longrightarrow> length (stripLeadingNumber q [p]) < length q"
proof -
  assume m: "leadingMarker q p"
  let ?k = "length (takeWhile (\<lambda>c. c \<noteq> p) q)"
  from m have "takeWhile (\<lambda>c. c \<noteq> p) q \<noteq> q" by (simp add: leadingMarker_def Let_def)
  then have "0 < length q" by auto
  then have "length q - Suc ?k < length q" by arith
  moreover have "length (strings_TrimSpace (drop (Suc ?k) q)) \<le> length q - Suc ?k"
    using TrimSpace_length[of "drop (Suc ?k) q"] by simp
  ultimately have "length (strings_TrimSpace (drop (Suc ?k) q)) < length q" by linarith
  with m show ?thesis by (simp add: stripLeadingNumber_char)
qed

lemma stripLeadingNumber_trimmed:
  "strings_TrimSpace (stripLeadingNumber q [p]) = stripLeadingNumber q [p]"
  by (simp add: stripLeadingNumber_char)

lemma stripLeadingNumber_unmarked:
  "\<not> leadingMarker q p \<Longrightarrow> stripLeadingNumber q [p] = strings_TrimSpace q"
  by (simp add: stripLeadingNumber_char)

lemma stripLeadingNumbers_trimmed:
  "strings_TrimSpace (stripLeadingNumbers s) = stripLeadingNumbers s"
  by (simp add: stripLeadingNumbers_def stripLeadingNumber_trimmed)

text \<open>
  Claim C4, as amended. Applying \<open>stripLeadingNumbers\<close> a second time changes nothing
  exactly when the result of the first application starts with no enumeration marker,
  neither for \<^verbatim>\<open>.\<close> nor for \<^verbatim>\<open>)\<close>: each application removes at most one marker of
  each kind. On the example of the spec the numbering is removed and the parenthesis
  inside the sentence is kept.
\<close>

theorem stripLeadingNumbers_idempotent_iff:
  "(stripLeadingNumbers (stripLeadingNumbers s) = stripLeadingNumbers s
      \<longleftrightarrow> \<not> leadingMarker (stripLeadingNumbers s) (CHR ''.'')
          \<and> \<not> leadingMarker (stripLeadingNumbers s) (CHR '')''))
   \<and> stripLeadingNumbers ''3. What NAS Solutions (enterprise and scale-out) are you familiar with?''
       = ''What NAS Solutions (enterprise and scale-out) are you familiar with?''"
proof
  let ?t = "stripLeadingNumbers s"
  have tr: "strings_TrimSpace ?t = ?t" by (rule stripLeadingNumbers_trimmed)
  show "stripLeadingNumbers ?t = ?t
      \<longleftrightarrow> \<not> leadingMarker ?t (CHR ''.'') \<and> \<not> leadingMarker ?t (CHR '')'')"
  proof
    assume eq: "stripLeadingNumbers ?t = ?t"
    let ?u = "stripLeadingNumber ?t ''.''"
    have 1: "length ?u \<le> length ?t" by (rule stripLeadingNumber_length)
    have 2: "length (stripLeadingNumber ?u '')'') \<le> length ?u" by (rule stripLeadingNumber_length)
    from eq have len: "length (stripLeadingNumber ?u '')'') = length ?t"
      by (simp add: stripLeadingNumbers_def[of ?t])
    have dot: "\<not> leadingMarker ?t (CHR ''.'')"
      using stripLeadingNumber_shorter[of ?t "CHR ''.''"] 2 len by auto
    then have u: "?u = ?t" using tr by (simp add: stripLeadingNumber_unmarked)
    have "\<not> leadingMarker ?t (CHR '')'')"
      using stripLeadingNumber_shorter[of ?t "CHR '')''"] len u by auto
    with dot show "\<not> leadingMarker ?t (CHR ''.'') \<and> \<not> leadingMarker ?t (CHR '')'')" ..
  next
    assume "\<not> leadingMarker ?t (CHR ''.'') \<and> \<not> leadingMarker ?t (CHR '')'')"
    then show "stripLeadingNumbers ?t = ?t"
      using tr by (simp add: stripLeadingNumbers_def[of ?t] stripLeadingNumber_unmarked)
  qed
next
  show "stripLeadingNumbers ''3. What NAS Solutions (enterprise and scale-out) are you familiar with?''
       = ''What NAS Solutions (enterprise and scale-out) are you familiar with?''"
    by code_simp
qed

text \<open>The theorem at a line numbered once: nothing is left to strip, and a second
  application changes nothing.\<close>

theorem stripLeadingNumbers_idempotent_iff_witness:
  "stripLeadingNumbers (stripLeadingNumbers ''3) How?'') = stripLeadingNumbers ''3) How?''
   \<and> \<not> leadingMarker (stripLeadingNumbers ''3) How?'') (CHR ''.'')
   \<and> \<not> leadingMarker (stripLeadingNumbers ''3) How?'') (CHR '')'')"
proof -
  have m: "\<not> leadingMarker (stripLeadingNumbers ''3) How?'') (CHR ''.'')
      \<and> \<not> leadingMarker (stripLeadingNumbers ''3) How?'') (CHR '')'')"
    by code_simp
  with stripLeadingNumbers_idempotent_iff[of "''3) How?''"] show ?thesis by blast
qed

text \<open>Claim C4 as stated fails: a line numbered twice loses one marker at each
  application.\<close>

theorem stripLeadingNumbers_not_idempotent_counterexample:
  "stripLeadingNumbers ''1. 2. Why?'' = ''2. Why?'' \<and>
   stripLeadingNumbers (stripLeadingNumbers ''1. 2. Why?'') = ''Why?'' \<and>
   stripLeadingNumbers (stripLeadingNumbers ''1. 2. Why?'') \<noteq> stripLeadingNumbers ''1. 2. Why?''"
  by code_simp

section \<open>Parsed questions end with a question mark\<close>

lemma endsQ_suffix: "endsWithQuestionMark s \<longleftrightarrow> suffix ''?'' s"
proof
  assume "endsWithQuestionMark s"
  then have "s = butlast s @ ''?''"
    unfolding endsWithQuestionMark_def by (metis append_butlast_last_id)
  then show "suffix ''?'' s" by (metis suffixI)
next
  assume "suffix ''?'' s"
  then obtain t where "s = t @ ''?''" by (auto simp: suffix_def)
  then show "endsWithQuestionMark s" by (simp add: endsWithQuestionMark_def)
qed

lemma whiteSpace_no_question: "w \<in> set whiteSpace \<Longrightarrow> CHR ''?'' \<notin> set w"
  by (auto simp: whiteSpace_def)

lemma endsQ_drop: "endsWithQuestionMark s \<Longrightarrow> n < length s \<Longrightarrow> endsWithQuestionMark (drop n s)"
  by (simp add: endsWithQuestionMark_def)

lemma endsQ_drop_prefix:
  assumes "endsWithQuestionMark s" "prefix w s" "CHR ''?'' \<notin> set w"
  shows "endsWithQuestionMark (drop (length w) s)"
proof -
  from assms(2) obtain r where s: "s = w @ r" by (auto simp: prefix_def)
  have "r \<noteq> []"
  proof
    assume "r = []"
    with s assms(1) have "w \<noteq> []" "last w = CHR ''?''" by (auto simp: endsWithQuestionMark_def)
    then have "CHR ''?'' \<in> set w" by (metis last_in_set)
    with assms(3) show False by simp
  qed
  with s assms(1) show ?thesis by (simp add: endsWithQuestionMark_def)
qed

lemma endsQ_trimLeft: "endsWithQuestionMark s \<Longrightarrow> endsWithQuestionMark (trimLeftSpace s)"
proof (induction s rule: trimLeftSpace.induct)
  case (1 s)
  show ?case
  proof (cases "leadingSpace s = 0")
    case True
    with 1 show ?thesis by (subst trimLeftSpace.simps) simp
  next
    case False
    from leadingSpace_prefix[OF False] obtain w
      where w: "w \<in> set whiteSpace" "prefix w s" "leadingSpace s = length w" by blast
    from endsQ_drop_prefix[OF "1.prems" w(2) whiteSpace_no_question[OF w(1)]] w(3)
    have "endsWithQuestionMark (drop (leadingSpace s) s)" by simp
    with 1 False have "endsWithQuestionMark (trimLeftSpace (drop (leadingSpace s) s))" by simp
    with False show ?thesis by (subst trimLeftSpace.simps) simp
  qed
qed

lemma endsQ_trailing: "endsWithQuestionMark s \<Longrightarrow> trailingSpace s = 0"
proof (rule ccontr)
  assume q: "endsWithQuestionMark s" and "trailingSpace s \<noteq> 0"
  from trailingSpace_suffix[OF this(2)] obtain w
    where w: "w \<in> set whiteSpace" "suffix w s" by blast
  from w(2) obtain t where s: "s = t @ w" by (auto simp: suffix_def)
  from whiteSpace_nonempty[OF w(1)] s q have "last w = CHR ''?''"
    by (simp add: endsWithQuestionMark_def)
  with whiteSpace_nonempty[OF w(1)] have "CHR ''?'' \<in> set w" by (metis last_in_set)
  with whiteSpace_no_question[OF w(1)] show False by simp
qed

lemma endsQ_TrimSpace: "endsWithQuestionMark s \<Longrightarrow> endsWithQuestionMark (strings_TrimSpace s)"
  unfolding strings_TrimSpace_def
  using endsQ_trimLeft[of s] endsQ_trailing[of "trimLeftSpace s"]
  by (simp add: trimRightSpace_fixed)

lemma endsQ_stripLeadingNumber:
  assumes "endsWithQuestionMark q" "p \<noteq> CHR ''?''"
  shows "endsWithQuestionMark (stripLeadingNumber q [p])"
proof (cases "leadingMarker q p")
  case False
  with assms(1) show ?thesis by (simp add: stripLeadingNumber_char endsQ_TrimSpace)
next
  case True
  let ?pre = "takeWhile (\<lambda>c. c \<noteq> p) q"
  from True have ne: "?pre \<noteq> q" by (simp add: leadingMarker_def Let_def)
  have q: "q = ?pre @ dropWhile (\<lambda>c. c \<noteq> p) q" by simp
  from ne have dne: "dropWhile (\<lambda>c. c \<noteq> p) q \<noteq> []"
    by (metis append_Nil2 takeWhile_dropWhile_id)
  then have hd: "hd (dropWhile (\<lambda>c. c \<noteq> p) q) = p"
    using hd_dropWhile[of "\<lambda>c. c \<noteq> p" q] by simp
  from dne hd obtain rest where d: "dropWhile (\<lambda>c. c \<noteq> p) q = p # rest"
    by (cases "dropWhile (\<lambda>c. c \<noteq> p) q") auto
  have qq: "q = ?pre @ p # rest" using q d by simp
  have "endsWithQuestionMark (?pre @ p # rest)" using assms(1) qq by simp
  then have "rest \<noteq> []" using assms(2) by (auto simp: endsWithQuestionMark_def)
  then have "Suc (length ?pre) < length q" by (subst (2) qq) simp
  from endsQ_drop[OF assms(1) this] True show ?thesis
    by (simp add: stripLeadingNumber_char endsQ_TrimSpace)
qed

lemma endsQ_stripLeadingNumbers:
  "endsWithQuestionMark q \<Longrightarrow> endsWithQuestionMark (stripLeadingNumbers q)"
  by (simp add: stripLeadingNumbers_def endsQ_stripLeadingNumber)

lemma endsQ_parseText:
  assumes "endsWithQuestionMark part"
  shows "endsWithQuestionMark (parseText part)"
proof -
  let ?t = "strings_TrimSpace part"
  have t: "endsWithQuestionMark ?t" using assms by (rule endsQ_TrimSpace)
  have "endsWithQuestionMark (if strings_HasPrefix ?t ''-'' then drop 1 ?t else ?t)"
  proof (cases "strings_HasPrefix ?t ''-''")
    case False
    with t show ?thesis by simp
  next
    case True
    then have "prefix ''-'' ?t" by (simp add: strings_HasPrefix_def)
    from endsQ_drop_prefix[OF t this] True show ?thesis by simp
  qed
  then show ?thesis
    by (simp add: parseText_def Let_def endsQ_stripLeadingNumbers endsQ_TrimSpace)
qed

lemma parseParts_questions:
  "\<forall>q\<in>set data. endsWithQuestionMark (Question q)
    \<Longrightarrow> \<forall>q\<in>set (parseParts parts data). endsWithQuestionMark (Question q)"
proof (induction parts arbitrary: data)
  case Nil
  then show ?case by simp
next
  case (Cons part parts)
  show ?case
  proof (cases "length part > 0 \<and> strings_HasSuffix part ''?''")
    case False
    with Cons show ?thesis by auto
  next
    case True
    then have "endsWithQuestionMark part" by (simp add: endsQ_suffix strings_HasSuffix_def)
    then have "endsWithQuestionMark (parseText part)" by (rule endsQ_parseText)
    with Cons.prems have
      "\<forall>q\<in>set (data @ [\<lparr>Index = int (length data) + 1, Question = parseText part\<rparr>]).
          endsWithQuestionMark (Question q)" by simp
    from Cons.IH[OF this] True show ?thesis by (simp add: Let_def)
  qed
qed

lemma shuffleLoop_set:
  "n \<le> length questions \<Longrightarrow> shuffleLoop src n questions k = (Inr qs, k')
    \<Longrightarrow> set qs = set questions"
proof (induction n arbitrary: questions k)
  case 0
  then show ?case by simp
next
  case (Suc m)
  obtain r k1 where r: "random src 0 (int (Suc m)) k = (r, k1)" by (cases "random src 0 (int (Suc m)) k")
  from Suc.prems(2) r have rng: "0 \<le> r" "r < int (Suc m)"
    by (auto split: if_splits)
  let ?qs = "questions[m := questions ! nat r, nat r := questions ! m]"
  from Suc.prems(2) r rng have "shuffleLoop src m ?qs k1 = (Inr qs, k')" by simp
  moreover from Suc.prems(1) have "m \<le> length ?qs" by simp
  ultimately have "set qs = set ?qs" by (rule Suc.IH[rotated])
  moreover from Suc.prems(1) rng have "set ?qs = set questions"
    by (intro set_swap) auto
  ultimately show ?case by simp
qed

text \<open>
  Claim C9. Every question that \<open>parseInterviewChoice\<close> returns, shuffled or not, has a
  text that is not empty and ends with a question mark: a retained line ends with one,
  and trimming, dropping the bullet and stripping the markers only remove bytes before it.
\<close>

theorem parsed_questions_end_with_question_mark:
  "parseInterviewChoice src ch shuffle k = (Inr questions, k') \<Longrightarrow> q \<in> set questions
    \<Longrightarrow> Question q \<noteq> [] \<and> last (Question q) = CHR ''?''"
proof -
  assume p: "parseInterviewChoice src ch shuffle k = (Inr questions, k')" and q: "q \<in> set questions"
  let ?data = "parseParts (strings_Split (Text ch) (CHR 0x0A)) []"
  have all: "\<forall>q\<in>set ?data. endsWithQuestionMark (Question q)"
    by (rule parseParts_questions) simp
  have "set questions \<subseteq> set ?data"
  proof (cases "length (Text ch) = 0 \<or> length ?data = 0")
    case True
    with p show ?thesis by (auto simp: parseInterviewChoice_def Let_def split: if_splits)
  next
    case False
    show ?thesis
    proof (cases shuffle)
      case False
      with p \<open>\<not> (length (Text ch) = 0 \<or> length ?data = 0)\<close> show ?thesis
        by (auto simp: parseInterviewChoice_def Let_def)
    next
      case True
      with p False have "shuffleLoop src (length ?data) ?data k = (Inr questions, k')"
        by (simp add: parseInterviewChoice_def Let_def Shuffle_def)
      from shuffleLoop_set[OF _ this] show ?thesis by simp
    qed
  qed
  with all q have "endsWithQuestionMark (Question q)" by auto
  then show ?thesis by (simp add: endsWithQuestionMark_def)
qed

text \<open>The theorem at a bulleted, numbered line followed by a line that was cut off.\<close>

theorem parsed_questions_end_with_question_mark_witness:
  "parseInterviewChoice (constSource 0) \<lparr>Text = ''-1. Why (really)?\<newline>cut off''\<rparr> False 0
     = (Inr [\<lparr>Index = 1, Question = ''Why (really)?''\<rparr>], 0)
   \<and> Question \<lparr>Index = 1, Question = ''Why (really)?''\<rparr> \<noteq> []
   \<and> last (Question \<lparr>Index = 1, Question = ''Why (really)?''\<rparr>) = CHR ''?''"
proof -
  have p: "parseInterviewChoice (constSource 0) \<lparr>Text = ''-1. Why (really)?\<newline>cut off''\<rparr> False 0
     = (Inr [\<lparr>Index = 1, Question = ''Why (really)?''\<rparr>], 0)" by code_simp
  from parsed_questions_end_with_question_mark[OF p, of "\<lparr>Index = 1, Question = ''Why (really)?''\<rparr>"] p
  show ?thesis by simp
qed

section \<open>Lines terminated by CRLF\<close>

lemma Split_nonempty: "strings_Split s sep \<noteq> []"
  by (induction s) (auto split: list.splits)

lemma Split_line:
  "sep \<notin> set l \<Longrightarrow> strings_Split (l @ sep # rest) sep = l # strings_Split rest sep"
  by (induction l) (auto split: list.splits)

lemma Split_single: "sep \<notin> set l \<Longrightarrow> strings_Split l sep = [l]"
  by (induction l) (auto split: list.splits)

lemma Split_crlfLines:
  "\<forall>l\<in>set ls. CHR 0x0A \<notin> set l \<Longrightarrow>
    strings_Split (crlfLines ls @ rest) (CHR 0x0A)
      = map (\<lambda>l. l @ [CHR 0x0D]) ls @ strings_Split rest (CHR 0x0A)"
proof (induction ls)
  case Nil
  then show ?case by (simp add: crlfLines_def)
next
  case (Cons l ls)
  then have "CHR 0x0A \<notin> set (l @ [CHR 0x0D])" by simp
  from Split_line[OF this, of "crlfLines ls @ rest"] Cons show ?case
    by (simp add: crlfLines_def)
qed

lemma parseParts_skip_cr:
  "parseParts (map (\<lambda>l. l @ [CHR 0x0D]) ls @ parts) data = parseParts parts data"
  by (induction ls) (simp_all add: strings_HasSuffix_def)

lemma parseInterviewChoice_data:
  "parseInterviewChoice src ch shuffle k =
    (let data = parseParts (strings_Split (Text ch) (CHR 0x0A)) []
     in if Text ch = [] \<or> data = [] then (Inr [], k)
        else if shuffle then Shuffle src data k
        else (Inr data, k))"
  by (simp add: parseInterviewChoice_def Let_def)

text \<open>
  Claim C10. When every line of the text but the last is terminated by carriage return
  and line feed, the parser returns what it returns for the last, unterminated line
  alone: every terminated line keeps its carriage return after the split on line feeds
  and fails the test for a trailing question mark. Without shuffling the result is the
  last line's question if that line ends with a question mark, and no question otherwise.
\<close>

theorem crlf_terminated_lines_are_dropped:
  "(\<forall>l\<in>set ls. CHR 0x0A \<notin> set l) \<Longrightarrow> CHR 0x0A \<notin> set final
    \<Longrightarrow> parseInterviewChoice src \<lparr>Text = crlfLines ls @ final\<rparr> shuffle k
          = parseInterviewChoice src \<lparr>Text = final\<rparr> shuffle k
      \<and> parseInterviewChoice src \<lparr>Text = crlfLines ls @ final\<rparr> False k
          = (Inr (if strings_HasSuffix final ''?''
                  then [\<lparr>Index = 1, Question = parseText final\<rparr>] else []), k)"
proof -
  assume ls: "\<forall>l\<in>set ls. CHR 0x0A \<notin> set l" and final: "CHR 0x0A \<notin> set final"
  let ?d = "parseParts [final] []"
  have sp: "strings_Split (crlfLines ls @ final) (CHR 0x0A) = map (\<lambda>l. l @ [CHR 0x0D]) ls @ [final]"
    using Split_crlfLines[OF ls, of final] Split_single[OF final] by simp
  have data: "parseParts (strings_Split (crlfLines ls @ final) (CHR 0x0A)) [] = ?d"
    unfolding sp by (rule parseParts_skip_cr)
  have data': "parseParts (strings_Split final (CHR 0x0A)) [] = ?d"
    using Split_single[OF final] by simp
  have pp: "?d =
      (if strings_HasSuffix final ''?'' then [\<lparr>Index = 1, Question = parseText final\<rparr>] else [])"
    by (auto simp: strings_HasSuffix_def Let_def)
  have empty: "final = [] \<Longrightarrow> ?d = []" by simp
  have c1: "(crlfLines ls @ final = [] \<or> ?d = []) \<longleftrightarrow> ?d = []"
    using empty by auto
  have c2: "(final = [] \<or> ?d = []) \<longleftrightarrow> ?d = []"
    using empty by auto
  have whole: "parseInterviewChoice src \<lparr>Text = crlfLines ls @ final\<rparr> sh k =
      (if ?d = [] then (Inr [], k) else if sh then Shuffle src ?d k else (Inr ?d, k))" for sh
    unfolding parseInterviewChoice_data Let_def CompletionChoice.simps data c1 ..
  have last: "parseInterviewChoice src \<lparr>Text = final\<rparr> sh k =
      (if ?d = [] then (Inr [], k) else if sh then Shuffle src ?d k else (Inr ?d, k))" for sh
    unfolding parseInterviewChoice_data Let_def CompletionChoice.simps data' c2 ..
  have 1: "parseInterviewChoice src \<lparr>Text = crlfLines ls @ final\<rparr> shuffle k
          = parseInterviewChoice src \<lparr>Text = final\<rparr> shuffle k"
    by (simp only: whole last)
  have 2: "parseInterviewChoice src \<lparr>Text = crlfLines ls @ final\<rparr> False k
          = (Inr (if strings_HasSuffix final ''?''
                  then [\<lparr>Index = 1, Question = parseText final\<rparr>] else []), k)"
    unfolding whole by (subst (1 2) pp) simp
  from 1 2 show ?thesis ..
qed

text \<open>The theorem at two terminated question lines and an unterminated third.\<close>

theorem crlf_terminated_lines_are_dropped_witness:
  "parseInterviewChoice (constSource 0) \<lparr>Text = crlfLines [''1. Why?'', ''2. How?''] @ ''3. What?''\<rparr> True 0
     = parseInterviewChoice (constSource 0) \<lparr>Text = ''3. What?''\<rparr> True 0
   \<and> parseInterviewChoice (constSource 0) \<lparr>Text = crlfLines [''1. Why?'', ''2. How?''] @ ''3. What?''\<rparr> False 0
     = (Inr [\<lparr>Index = 1, Question = ''What?''\<rparr>], 0)"
proof -
  have ls: "\<forall>l\<in>set [''1. Why?'', ''2. How?'']. CHR 0x0A \<notin> set l" by simp
  have final: "CHR 0x0A \<notin> set ''3. What?''" by simp
  have q: "strings_HasSuffix ''3. What?'' ''?''" by code_simp
  have t: "parseText ''3. What?'' = ''What?''" by code_simp
  from crlf_terminated_lines_are_dropped[OF ls final, of "constSource 0" True 0]
       crlf_terminated_lines_are_dropped[OF ls final, of "constSource 0" False 0]
  show ?thesis by (simp add: q t)
qed

section \<open>The cap\<close>

lemma appendItems_length:
  "0 \<le> quesCap \<Longrightarrow> int (length questions) \<le> quesCap
    \<Longrightarrow> int (length (appendItems quesCap items questions)) \<le> quesCap"
  by (induction items arbitrary: questions) auto

lemma appendChoices_length:
  "0 \<le> quesCap \<Longrightarrow> int (length questions) \<le> quesCap
    \<Longrightarrow> appendChoices src shuffle quesCap chs questions k = (Inr result, k')
    \<Longrightarrow> int (length result) \<le> quesCap"
proof (induction chs arbitrary: questions k)
  case Nil
  then show ?case by simp
next
  case (Cons ch chs)
  from Cons.prems(3) obtain items k1 where
    p: "parseInterviewChoice src ch shuffle k = (Inr items, k1)" and
    r: "appendChoices src shuffle quesCap chs (appendItems quesCap items questions) k1 = (Inr result, k')"
    by (auto split: prod.splits sum.splits)
  from Cons.IH[OF Cons.prems(1) appendItems_length[OF Cons.prems(1,2)] r] show ?case .
qed

lemma GetCap_effectiveCap:
  "GetCap (case options of None \<Rightarrow> NewInterviewOptions InterviewDefaultCap | Some opts \<Rightarrow> opts)
    = effectiveCap options"
  by (auto simp: GetCap_def effectiveCap_def NewInterviewOptions_def InterviewDefaultCap_def
      InterviewMaxCap_def IntPtr_def Let_def split: option.splits)

text \<open>
  Claim C1, as amended. Whenever \<open>InterviewQuestions\<close> returns a response and the
  effective cap is not negative, the response holds at most as many questions as the
  effective cap: the smaller of the requested cap and 50 when a cap is supplied, 5 when
  no options or no cap is supplied.
\<close>

theorem questions_within_cap:
  "returned (InterviewQuestions CreateCompletion src start finish input settings options k) = Inr r
    \<Longrightarrow> 0 \<le> effectiveCap options
    \<Longrightarrow> int (length (Questions r)) \<le> effectiveCap options"
proof -
  assume ret: "returned (InterviewQuestions CreateCompletion src start finish input settings options k) = Inr r"
    and cap: "0 \<le> effectiveCap options"
  let ?opts = "case options of None \<Rightarrow> NewInterviewOptions InterviewDefaultCap | Some opts \<Rightarrow> opts"
  from ret have "\<exists>(resp::CompletionResponse) k'.
    appendChoices src (InterviewOptions.Shuffle ?opts) (GetCap ?opts) (Choices resp) [] k
      = (Inr (Questions r), k')"
    by (auto simp: InterviewQuestions_def Let_def
        split: if_splits option.splits sum.splits prod.splits; blast)
  then obtain resp :: CompletionResponse and k' where
    "appendChoices src (InterviewOptions.Shuffle ?opts) (GetCap ?opts) (Choices resp) [] k
      = (Inr (Questions r), k')" by blast
  then have "appendChoices src (InterviewOptions.Shuffle ?opts) (effectiveCap options) (Choices resp) [] k
      = (Inr (Questions r), k')"
    by (simp only: GetCap_effectiveCap)
  from appendChoices_length[OF cap _ this] cap show ?thesis by simp
qed

text \<open>The theorem at three parsed questions and a requested cap of 2.\<close>

theorem questions_within_cap_witness:
  "returned (InterviewQuestions (answerWith [''1. Why?\<newline>2) How?\<newline>3. What?'']) (constSource 0) 0 1
      developer (Some (NewInterviewSettings ''u'')) (Some \<lparr>Cap = Some 2, Shuffle = False\<rparr>) 0)
    = Inr \<lparr>Request =
             \<lparr>Prompt = ''Create a list of questions for my interview with a dev'',
              Settings = NewInterviewSettings ''u''\<rparr>,
           Duration = 1,
           Options = Some \<lparr>Cap = Some 2, Shuffle = False\<rparr>,
           Questions = [\<lparr>Index = 1, Question = ''Why?''\<rparr>, \<lparr>Index = 2, Question = ''How?''\<rparr>]\<rparr>
   \<and> effectiveCap (Some \<lparr>Cap = Some 2, Shuffle = False\<rparr>) = 2"
proof -
  let ?r = "\<lparr>Request =
             \<lparr>Prompt = ''Create a list of questions for my interview with a dev'',
              Settings = NewInterviewSettings ''u''\<rparr>,
           Duration = 1,
           Options = Some \<lparr>Cap = Some 2, Shuffle = False\<rparr>,
           Questions = [\<lparr>Index = 1, Question = ''Why?''\<rparr>, \<lparr>Index = 2, Question = ''How?''\<rparr>]\<rparr>"
  have r: "returned (InterviewQuestions (answerWith [''1. Why?\<newline>2) How?\<newline>3. What?'']) (constSource 0) 0 1
      developer (Some (NewInterviewSettings ''u'')) (Some \<lparr>Cap = Some 2, Shuffle = False\<rparr>) 0)
    = Inr ?r" by code_simp
  have c: "effectiveCap (Some \<lparr>Cap = Some 2, Shuffle = False\<rparr>) = 2" by code_simp
  then have c0: "0 \<le> effectiveCap (Some \<lparr>Cap = Some 2, Shuffle = False\<rparr>)" by simp
  from questions_within_cap[OF r c0] r c show ?thesis by simp
qed

text \<open>Claim C1 as stated fails for a negative requested cap: the length of the result
  never equals the cap, so every parsed question is kept, and one question is more than
  the effective cap -1.\<close>

theorem negative_cap_counterexample:
  "returned (InterviewQuestions (answerWith [''Why?'']) (constSource 0) 0 1
      developer (Some (NewInterviewSettings ''u'')) (Some \<lparr>Cap = Some (- 1), Shuffle = False\<rparr>) 0)
    = Inr \<lparr>Request =
             \<lparr>Prompt = ''Create a list of questions for my interview with a dev'',
              Settings = NewInterviewSettings ''u''\<rparr>,
           Duration = 1,
           Options = Some \<lparr>Cap = Some (- 1), Shuffle = False\<rparr>,
           Questions = [\<lparr>Index = 1, Question = ''Why?''\<rparr>]\<rparr>
   \<and> effectiveCap (Some \<lparr>Cap = Some (- 1), Shuffle = False\<rparr>) = - 1
   \<and> \<not> int (length [\<lparr>Index = 1, Question = ''Why?''\<rparr>])
        \<le> effectiveCap (Some \<lparr>Cap = Some (- 1), Shuffle = False\<rparr>)"
  by code_simp

section \<open>No question lines\<close>

lemma Split_hd_empty:
  "hd (strings_Split s sep) = [] \<Longrightarrow> s = [] \<or> hd s = sep"
  by (cases s) (auto split: list.splits if_splits)

lemma Split_question_piece:
  "part \<in> set (strings_Split raw (CHR 0x0A)) \<Longrightarrow> suffix ''?'' part \<Longrightarrow> hasQuestionLine raw"
proof (induction raw arbitrary: part)
  case Nil
  then show ?case by simp
next
  case (Cons c cs)
  show ?case
  proof (cases "c = CHR 0x0A")
    case True
    with Cons.prems have "part \<in> set (strings_Split cs (CHR 0x0A))" by auto
    from Cons.IH[OF this Cons.prems(2)] have "hasQuestionLine cs" .
    then show ?thesis
      by (auto simp: hasQuestionLine_def suffix_Cons sublist_Cons_right)
  next
    case False
    obtain p ps where sp: "strings_Split cs (CHR 0x0A) = p # ps"
      using Split_nonempty[of cs "CHR 0x0A"] by (cases "strings_Split cs (CHR 0x0A)") auto
    with False Cons.prems(1) have "part = c # p \<or> part \<in> set ps" by simp
    then show ?thesis
    proof
      assume "part \<in> set ps"
      with sp have "part \<in> set (strings_Split cs (CHR 0x0A))" by simp
      from Cons.IH[OF this Cons.prems(2)] show ?thesis
        by (auto simp: hasQuestionLine_def suffix_Cons sublist_Cons_right)
    next
      assume part: "part = c # p"
      show ?thesis
      proof (cases "p = []")
        case False
        with part Cons.prems(2) have "suffix ''?'' p" by (auto simp: suffix_Cons)
        moreover from sp have "p \<in> set (strings_Split cs (CHR 0x0A))" by simp
        ultimately have "hasQuestionLine cs" by (rule Cons.IH[rotated])
        then show ?thesis
          by (auto simp: hasQuestionLine_def suffix_Cons sublist_Cons_right)
      next
        case True
        with part Cons.prems(2) have c: "c = CHR ''?''" by (auto simp: suffix_Cons)
        from True sp have "hd (strings_Split cs (CHR 0x0A)) = []" by simp
        then have "cs = [] \<or> hd cs = CHR 0x0A" by (rule Split_hd_empty)
        then show ?thesis
        proof
          assume "cs = []"
          with c show ?thesis by (simp add: hasQuestionLine_def)
        next
          assume h: "hd cs = CHR 0x0A"
          show ?thesis
          proof (cases cs)
            case Nil
            with c show ?thesis by (simp add: hasQuestionLine_def)
          next
            case (Cons d ds)
            with h c have "prefix [CHR ''?'', CHR 0x0A] (c # cs)" by simp
            then have "sublist [CHR ''?'', CHR 0x0A] (c # cs)" by (rule prefix_imp_sublist)
            then show ?thesis by (simp add: hasQuestionLine_def)
          qed
        qed
      qed
    qed
  qed
qed

text \<open>The pieces of the split are the lines: a text has a line terminated by a question
  mark exactly when one of its pieces ends with one.\<close>

lemma Split_piece_lift:
  assumes "\<exists>part\<in>set (strings_Split cs sep). suffix ''?'' part"
  shows "\<exists>part\<in>set (strings_Split (c # cs) sep). suffix ''?'' part"
proof (cases "c = sep")
  case True
  with assms show ?thesis by auto
next
  case False
  obtain p ps where sp: "strings_Split cs sep = p # ps"
    using Split_nonempty[of cs sep] by (cases "strings_Split cs sep") auto
  from assms obtain part where part: "part \<in> set (p # ps)" "suffix ''?'' part"
    unfolding sp by blast
  show ?thesis
  proof (cases "part = p")
    case True
    with part(2) have "suffix ''?'' (c # p)" by (simp add: suffix_Cons)
    with False sp show ?thesis by simp
  next
    case False
    with part(1) have "part \<in> set ps" by simp
    with \<open>c \<noteq> sep\<close> sp part(2) show ?thesis by auto
  qed
qed

lemma Split_question_piece_conv:
  "hasQuestionLine raw \<Longrightarrow> \<exists>part\<in>set (strings_Split raw (CHR 0x0A)). suffix ''?'' part"
proof (induction raw)
  case Nil
  then show ?case by (simp add: hasQuestionLine_def)
next
  case (Cons c cs)
  show ?case
  proof (cases "hasQuestionLine cs")
    case True
    from Cons.IH[OF this] show ?thesis by (rule Split_piece_lift)
  next
    case False
    with Cons.prems have "(cs = [] \<and> c = CHR ''?'') \<or> prefix [CHR ''?'', CHR 0x0A] (c # cs)"
      by (auto simp: hasQuestionLine_def suffix_Cons sublist_Cons_right)
    then show ?thesis
    proof
      assume "cs = [] \<and> c = CHR ''?''"
      then show ?thesis by simp
    next
      assume "prefix [CHR ''?'', CHR 0x0A] (c # cs)"
      then obtain rest where "c = CHR ''?''" "cs = CHR 0x0A # rest" by (cases cs) auto
      then show ?thesis by simp
    qed
  qed
qed

lemma hasQuestionLine_iff:
  "hasQuestionLine raw \<longleftrightarrow> (\<exists>part\<in>set (strings_Split raw (CHR 0x0A)). suffix ''?'' part)"
  using Split_question_piece Split_question_piece_conv by blast

lemma parseParts_none:
  "\<forall>part\<in>set parts. \<not> suffix ''?'' part \<Longrightarrow> parseParts parts data = data"
  by (induction parts arbitrary: data) (simp_all add: strings_HasSuffix_def)

lemma parseInterviewChoice_none:
  "\<not> hasQuestionLine (Text ch) \<Longrightarrow> parseInterviewChoice src ch shuffle k = (Inr [], k)"
proof -
  assume "\<not> hasQuestionLine (Text ch)"
  then have "\<forall>part\<in>set (strings_Split (Text ch) (CHR 0x0A)). \<not> suffix ''?'' part"
    using Split_question_piece by blast
  then have "parseParts (strings_Split (Text ch) (CHR 0x0A)) [] = []" by (rule parseParts_none)
  then show ?thesis by (simp add: parseInterviewChoice_data)
qed

lemma appendChoices_none:
  "\<forall>ch\<in>set chs. \<not> hasQuestionLine (Text ch)
    \<Longrightarrow> appendChoices src shuffle quesCap chs questions k = (Inr questions, k)"
  by (induction chs) (simp_all add: parseInterviewChoice_none)


lemma InterviewQuestions_mapped:
  assumes "\<not> (trimStr (JobTitle input) = [] \<and> trimStr (JobDescription input) = [])"
  shows "InterviewQuestions CreateCompletion src start finish input (Some settings) options k =
    (let settings1 = (if length (Engine settings) = 0
                      then settings\<lparr>Engine := InterviewDefaultEngine\<rparr> else settings);
         options1 = (case options of None \<Rightarrow> NewInterviewOptions InterviewDefaultCap
                     | Some opts \<Rightarrow> opts)
     in case mapInterviewSettings settings1
               (getInterviewPrompt (trimStr (JobTitle input)) (trimStr (JobDescription input))) of
          Inl f \<Rightarrow> \<lparr>returned = Inl f, settingsAfter = Some settings1, requests = [], draws = k\<rparr>
        | Inr request \<Rightarrow>
            (case CreateCompletion request of
               Inl err \<Rightarrow> \<lparr>returned = Inl (Err err), settingsAfter = Some settings1,
                           requests = [request], draws = k\<rparr>
             | Inr resp \<Rightarrow>
                 (case appendChoices src (InterviewOptions.Shuffle options1) (GetCap options1)
                         (Choices resp) [] k of
                    (Inl f, k') \<Rightarrow> \<lparr>returned = Inl f, settingsAfter = Some settings1,
                                     requests = [request], draws = k'\<rparr>
                  | (Inr questions, k') \<Rightarrow>
                      \<lparr>returned =
                         Inr \<lparr>Request =
                                \<lparr>Prompt = getInterviewPrompt (trimStr (JobTitle input))
                                            (trimStr (JobDescription input)),
                                 Settings = settings1\<rparr>,
                              Duration = finish - start,
                              Options = Some options1,
                              Questions = questions\<rparr>,
                       settingsAfter = Some settings1,
                       requests = [request], draws = k'\<rparr>)))"
proof -
  have "\<not> (length (trimStr (JobTitle input)) = 0 \<and> length (trimStr (JobDescription input)) = 0)"
    using assms by simp
  then show ?thesis
    unfolding InterviewQuestions_def Let_def by (simp only: if_False option.case)
qed

text \<open>
  Claim C6. Take an invocation whose job title or description is not empty after
  trimming, whose settings are present, and whose completion call is made and succeeds
  (the run sends exactly the request \<open>request\<close>, and the service answers it with \<open>resp\<close>).
  If no choice of the response has a line terminated by a question mark (an empty text
  has none), the orchestrator returns a response with a nil error, its list of questions
  is empty and \<open>HasQuestions\<close> is false.
\<close>

theorem no_question_lines_is_success:
  assumes input: "trimStr (JobTitle input) \<noteq> [] \<or> trimStr (JobDescription input) \<noteq> []"
    and sent: "requests (InterviewQuestions CreateCompletion src start finish input (Some settings)
                 options k) = [request]"
    and answer: "CreateCompletion request = Inr resp"
    and lines: "\<forall>ch\<in>set (Choices resp). \<not> hasQuestionLine (Text ch)"
  shows "\<exists>r. returned (InterviewQuestions CreateCompletion src start finish input (Some settings)
                 options k) = Inr r
            \<and> Questions r = [] \<and> \<not> HasQuestions (Some r)"
proof -
  let ?settings1 = "if length (Engine settings) = 0
                    then settings\<lparr>Engine := InterviewDefaultEngine\<rparr> else settings"
  let ?prompt = "getInterviewPrompt (trimStr (JobTitle input)) (trimStr (JobDescription input))"
  let ?options1 = "case options of None \<Rightarrow> NewInterviewOptions InterviewDefaultCap | Some opts \<Rightarrow> opts"
  from input have ne: "\<not> (trimStr (JobTitle input) = [] \<and> trimStr (JobDescription input) = [])"
    by blast
  note run = InterviewQuestions_mapped[OF ne, of CreateCompletion src start finish settings options k]
  have mapped: "mapInterviewSettings ?settings1 ?prompt = Inr request"
  proof (cases "mapInterviewSettings ?settings1 ?prompt")
    case (Inl f)
    with sent show ?thesis unfolding run by (simp add: Let_def)
  next
    case (Inr request')
    with sent have "request' = request"
      unfolding run by (simp add: Let_def split: sum.splits prod.splits)
    with Inr show ?thesis by simp
  qed
  have none: "appendChoices src (InterviewOptions.Shuffle ?options1) (GetCap ?options1)
                (Choices resp) [] k = (Inr [], k)"
    using lines by (rule appendChoices_none)
  show ?thesis unfolding run using mapped answer none
    by (simp add: Let_def HasQuestions_def)
qed

text \<open>The theorem at a response of two choices, a text without a question mark at the end
  of a line and an empty text.\<close>

theorem no_question_lines_is_success_witness:
  "\<exists>r. returned (InterviewQuestions (answerWith [''Sorry, no idea.\<newline>What about'', []]) (constSource 0)
            0 1 developer (Some (NewInterviewSettings ''u'')) None 0) = Inr r
       \<and> Questions r = [] \<and> \<not> HasQuestions (Some r)"
proof -
  let ?request = "\<lparr>CompletionRequest.Model = ''text-davinci-001'',
      CompletionRequest.Prompt = ''Create a list of questions for my interview with a dev'',
      CompletionRequest.MaxTokens = 175,
      CompletionRequest.Temperature = 1,
      CompletionRequest.TopP = float32 (85 / 100),
      CompletionRequest.N = 1,
      CompletionRequest.Stream = False,
      CompletionRequest.Echo = False,
      CompletionRequest.PresencePenalty = float32 (7 / 10),
      CompletionRequest.FrequencyPenalty = float32 (75 / 100),
      CompletionRequest.User = ''u''\<rparr>"
  let ?resp = "\<lparr>Choices = [\<lparr>Text = ''Sorry, no idea.\<newline>What about''\<rparr>, \<lparr>Text = []\<rparr>]\<rparr>"
  have 1: "trimStr (JobTitle developer) \<noteq> [] \<or> trimStr (JobDescription developer) \<noteq> []"
    by code_simp
  have 2: "requests (InterviewQuestions (answerWith [''Sorry, no idea.\<newline>What about'', []])
      (constSource 0) 0 1 developer (Some (NewInterviewSettings ''u'')) None 0) = [?request]"
    by code_simp
  have 3: "answerWith [''Sorry, no idea.\<newline>What about'', []] ?request = Inr ?resp"
    by (simp add: answerWith_def)
  have 4: "\<forall>ch\<in>set (Choices ?resp). \<not> hasQuestionLine (Text ch)"
    by code_simp
  from no_question_lines_is_success[OF 1 2 3 4] show ?thesis .
qed

section \<open>Validation\<close>

text \<open>
  Claim C7. When the job title and the job description both trim to empty,
  \<open>InterviewQuestions\<close> returns the error \<open>InvalidInput\<close> and has sent no request to the
  completion service. When one of them does not trim to empty and the settings are
  \<^verbatim>\<open>nil\<close>, it returns the error \<open>MissingSettings\<close>, again without a request sent.
\<close>

theorem validation_before_completion:
  "(trimStr (JobTitle input) = [] \<and> trimStr (JobDescription input) = [] \<longrightarrow>
      returned (InterviewQuestions CreateCompletion src start finish input settings options k)
        = Inl (Err InvalidInput)
      \<and> requests (InterviewQuestions CreateCompletion src start finish input settings options k)
        = [])
   \<and> (\<not> (trimStr (JobTitle input) = [] \<and> trimStr (JobDescription input) = []) \<longrightarrow>
      returned (InterviewQuestions CreateCompletion src start finish input None options k)
        = Inl (Err MissingSettings)
      \<and> requests (InterviewQuestions CreateCompletion src start finish input None options k)
        = [])"
  by (simp add: InterviewQuestions_def Let_def InvalidInput_def MissingSettings_def)

text \<open>The theorem at a title of two spaces, and at a title with no settings.\<close>

theorem validation_before_completion_witness:
  "returned (InterviewQuestions (answerWith [''Why?'']) (constSource 0) 0 1
      \<lparr>JobTitle = Some ''  '', JobDescription = None\<rparr> (Some (NewInterviewSettings ''u'')) None 0)
     = Inl (Err InvalidInput)
   \<and> requests (InterviewQuestions (answerWith [''Why?'']) (constSource 0) 0 1
      \<lparr>JobTitle = Some ''  '', JobDescription = None\<rparr> (Some (NewInterviewSettings ''u'')) None 0)
     = []
   \<and> returned (InterviewQuestions (answerWith [''Why?'']) (constSource 0) 0 1 developer None None 0)
     = Inl (Err MissingSettings)
   \<and> requests (InterviewQuestions (answerWith [''Why?'']) (constSource 0) 0 1 developer None None 0)
     = []"
proof -
  have blank: "trimStr (JobTitle \<lparr>JobTitle = Some ''  '', JobDescription = None\<rparr>) = []
      \<and> trimStr (JobDescription \<lparr>JobTitle = Some ''  '', JobDescription = None\<rparr>) = []"
    by code_simp
  have dev: "\<not> (trimStr (JobTitle developer) = [] \<and> trimStr (JobDescription developer) = [])"
    by code_simp
  from validation_before_completion[of "\<lparr>JobTitle = Some ''  '', JobDescription = None\<rparr>"
         "answerWith [''Why?'']" "constSource 0" 0 1 "Some (NewInterviewSettings ''u'')" None 0] blank
       validation_before_completion[of developer "answerWith [''Why?'']" "constSource 0" 0 1
         "Some (NewInterviewSettings ''u'')" None 0] dev
  show ?thesis by simp
qed

section \<open>Mapping the settings\<close>

text \<open>
  Claim C8. For settings whose \<open>MaxTokens\<close>, \<open>Temperature\<close> and \<open>TopP\<close> are not
  \<^verbatim>\<open>nil\<close>, and every prompt, \<open>mapInterviewSettings\<close> yields a request that carries the
  engine as its model, the frequency penalty, the max tokens, the presence penalty, the
  temperature, top-p and the user of the settings unchanged, the prompt as given, echo
  off, N = 1 and streaming off.
\<close>

theorem mapInterviewSettings_copies:
  "MaxTokens settings = Some maxTokens \<Longrightarrow> Temperature settings = Some temperature
    \<Longrightarrow> TopP settings = Some topP
    \<Longrightarrow> \<exists>request. mapInterviewSettings settings prompt = Inr request
          \<and> CompletionRequest.Model request = Engine settings
          \<and> CompletionRequest.FrequencyPenalty request = FrequencyPenalty settings
          \<and> CompletionRequest.MaxTokens request = maxTokens
          \<and> CompletionRequest.PresencePenalty request = PresencePenalty settings
          \<and> CompletionRequest.Temperature request = temperature
          \<and> CompletionRequest.TopP request = topP
          \<and> CompletionRequest.User request = User settings
          \<and> CompletionRequest.Prompt request = prompt
          \<and> CompletionRequest.Echo request = False
          \<and> CompletionRequest.N request = 1
          \<and> CompletionRequest.Stream request = False"
  by (simp add: mapInterviewSettings_def)

text \<open>The theorem at the stable profile.\<close>

theorem mapInterviewSettings_copies_witness:
  "mapInterviewSettings (NewInterviewSettings ''u'') ''Create a list'' =
     Inr \<lparr>CompletionRequest.Model = ''text-davinci-001'',
      CompletionRequest.Prompt = ''Create a list'',
      CompletionRequest.MaxTokens = 175,
      CompletionRequest.Temperature = 1,
      CompletionRequest.TopP = float32 (85 / 100),
      CompletionRequest.N = 1,
      CompletionRequest.Stream = False,
      CompletionRequest.Echo = False,
      CompletionRequest.PresencePenalty = float32 (7 / 10),
      CompletionRequest.FrequencyPenalty = float32 (75 / 100),
      CompletionRequest.User = ''u''\<rparr>"
proof -
  have m: "MaxTokens (NewInterviewSettings ''u'') = Some 175" by (simp add: NewInterviewSettings_def IntPtr_def)
  have f1: "float32 1 = 1" by code_simp
  have t: "Temperature (NewInterviewSettings ''u'') = Some 1"
    by (simp add: NewInterviewSettings_def Float32Ptr_def f1)
  have p: "TopP (NewInterviewSettings ''u'') = Some (float32 (85 / 100))"
    by (simp add: NewInterviewSettings_def Float32Ptr_def)
  from mapInterviewSettings_copies[OF m t p, of "''Create a list''"]
  obtain request where r: "mapInterviewSettings (NewInterviewSettings ''u'') ''Create a list'' = Inr request"
    and fields: "CompletionRequest.Model request = Engine (NewInterviewSettings ''u'')"
      "CompletionRequest.FrequencyPenalty request = FrequencyPenalty (NewInterviewSettings ''u'')"
      "CompletionRequest.MaxTokens request = 175"
      "CompletionRequest.PresencePenalty request = PresencePenalty (NewInterviewSettings ''u'')"
      "CompletionRequest.Temperature request = 1"
      "CompletionRequest.TopP request = float32 (85 / 100)"
      "CompletionRequest.User request = User (NewInterviewSettings ''u'')"
      "CompletionRequest.Prompt request = ''Create a list''"
      "CompletionRequest.Echo request = False"
      "CompletionRequest.N request = 1"
      "CompletionRequest.Stream request = False"
    by blast
  from fields have "request = \<lparr>CompletionRequest.Model = ''text-davinci-001'',
      CompletionRequest.Prompt = ''Create a list'',
      CompletionRequest.MaxTokens = 175,
      CompletionRequest.Temperature = 1,
      CompletionRequest.TopP = float32 (85 / 100),
      CompletionRequest.N = 1,
      CompletionRequest.Stream = False,
      CompletionRequest.Echo = False,
      CompletionRequest.PresencePenalty = float32 (7 / 10),
      CompletionRequest.FrequencyPenalty = float32 (75 / 100),
      CompletionRequest.User = ''u''\<rparr>"
    by (cases request) (simp add: NewInterviewSettings_def InterviewDefaultEngine_def)
  with r show ?thesis by simp
qed

section \<open>Rounding to float32\<close>

lemma bitLen_nonneg: "0 \<le> bitLen n"
proof (induction n rule: bitLen.induct)
  case (1 n)
  show ?case
  proof (cases "n \<le> 0")
    case True
    then show ?thesis by (subst bitLen.simps) simp
  next
    case False
    with 1 have "0 \<le> bitLen (n div 2)" by simp
    with False show ?thesis by (subst bitLen.simps) simp
  qed
qed

lemma bitLen_pos: "0 < n \<Longrightarrow> 0 < bitLen n"
  using bitLen_nonneg[of "n div 2"] by (subst bitLen.simps) simp

lemma bitLen_bounds:
  "0 < n \<Longrightarrow> 2 ^ nat (bitLen n - 1) \<le> n \<and> n < 2 ^ nat (bitLen n)"
proof (induction n rule: bitLen.induct)
  case (1 n)
  let ?m = "n div 2"
  have bl: "bitLen n = 1 + bitLen ?m" using "1.prems" by (subst bitLen.simps) simp
  show ?case
  proof (cases "n = 1")
    case True
    then have "bitLen n = 1" by (simp add: bitLen.simps[of 1] bitLen.simps[of 0])
    with True show ?thesis by simp
  next
    case False
    with "1.prems" have m: "0 < ?m" by simp
    with "1.prems" "1.IH" have ih: "2 ^ nat (bitLen ?m - 1) \<le> ?m" "?m < 2 ^ nat (bitLen ?m)"
      by simp_all
    have pos: "0 < bitLen ?m" using m by (rule bitLen_pos)
    then have step: "(2::int) ^ nat (bitLen ?m) = 2 * 2 ^ nat (bitLen ?m - 1)"
      by (metis Suc_nat_eq_nat_zadd1 add.commute bitLen_nonneg diff_add_cancel diff_ge_0_iff_ge
          int_one_le_iff_zero_less power_Suc)
    have lo: "2 ^ nat (bitLen ?m) \<le> n" using ih(1) step by linarith
    have "?m + 1 \<le> 2 ^ nat (bitLen ?m)" using ih(2) by simp
    then have hi: "n < 2 * 2 ^ nat (bitLen ?m)" by linarith
    have "nat (bitLen n) = Suc (nat (bitLen ?m))" using bl pos by simp
    moreover have "nat (bitLen n - 1) = nat (bitLen ?m)" using bl by simp
    ultimately show ?thesis using lo hi by simp
  qed
qed


lemma powi_two_nat: "0 \<le> n \<Longrightarrow> (2::rat) powi n = 2 ^ nat n"
  by (simp add: power_int_def)

lemma ilog2_bounds:
  assumes "0 < x"
  shows "2 powi ilog2 x \<le> x \<and> x < 2 powi (ilog2 x + 1)"
proof -
  obtain p q where pq: "quotient_of x = (p, q)" by (cases "quotient_of x")
  then have q: "0 < q" using quotient_of_denom_pos by blast
  from pq have x: "x = of_int p / of_int q" by (rule quotient_of_div)
  with assms q have p: "0 < p" by (simp add: zero_less_divide_iff)
  let ?a = "bitLen p" and ?b = "bitLen q"
  let ?e = "?a - ?b"
  from bitLen_bounds[OF p] have pb: "(2::rat) ^ nat (?a - 1) \<le> of_int p" "of_int p < (2::rat) ^ nat ?a"
    by (metis of_int_le_iff of_int_numeral of_int_power, metis of_int_less_iff of_int_numeral of_int_power)
  from bitLen_bounds[OF q] have qb: "(2::rat) ^ nat (?b - 1) \<le> of_int q" "of_int q < (2::rat) ^ nat ?b"
    by (metis of_int_le_iff of_int_numeral of_int_power, metis of_int_less_iff of_int_numeral of_int_power)
  have apos: "0 < ?a" "0 < ?b" using p q by (simp_all add: bitLen_pos)
  have P: "(2::rat) powi (?a - 1) \<le> of_int p" "of_int p < (2::rat) powi ?a"
    using pb apos by (simp_all add: powi_two_nat)
  have Q: "(2::rat) powi (?b - 1) \<le> of_int q" "of_int q < (2::rat) powi ?b"
    using qb apos by (simp_all add: powi_two_nat)
  have qpos: "(0::rat) < of_int q" using q by simp
  have upper: "x < 2 powi (?e + 1)"
  proof -
    have "x < 2 powi ?a / of_int q" unfolding x using P(2) qpos by (simp add: divide_strict_right_mono)
    also have "\<dots> \<le> 2 powi ?a / 2 powi (?b - 1)"
      using Q(1) qpos by (intro divide_left_mono) (simp_all add: zero_less_power_int)
    also have "\<dots> = 2 powi (?e + 1)"
      by (simp add: power_int_diff[symmetric] algebra_simps)
    finally show ?thesis .
  qed
  have lower: "2 powi (?e - 1) < x"
  proof -
    have "(2::rat) powi (?e - 1) = 2 powi (?a - 1) / 2 powi ?b"
      by (simp add: power_int_diff[symmetric] algebra_simps)
    also have "\<dots> < 2 powi (?a - 1) / of_int q"
      using Q(2) qpos by (intro divide_strict_left_mono) (simp_all add: zero_less_power_int)
    also have "\<dots> \<le> x" unfolding x using P(1) qpos by (simp add: divide_right_mono)
    finally show ?thesis .
  qed
  have il: "ilog2 x = (if 2 powi ?e \<le> x then ?e else ?e - 1)"
    by (simp add: ilog2_def pq Let_def)
  show ?thesis
  proof (cases "2 powi ?e \<le> x")
    case True
    with il upper show ?thesis by simp
  next
    case False
    with il lower show ?thesis by simp
  qed
qed

lemma roundHalfEven_error: "\<bar>of_int (roundHalfEven y) - y\<bar> \<le> 1 / 2"
proof -
  have "of_int \<lfloor>y\<rfloor> \<le> y" "y < of_int \<lfloor>y\<rfloor> + 1" by linarith+
  then show ?thesis by (auto simp: roundHalfEven_def Let_def)
qed

lemma float32_error:
  assumes "x \<noteq> 0"
  shows "\<bar>float32 x - x\<bar> \<le> \<bar>x\<bar> / 2 ^ 24"
proof -
  let ?e = "ilog2 \<bar>x\<bar>"
  let ?ulp = "(2::rat) powi (?e - 23)"
  have up: "0 < ?ulp" by (simp add: zero_less_power_int)
  have f: "float32 x = of_int (roundHalfEven (x / ?ulp)) * ?ulp"
    using assms by (simp add: float32_def Let_def)
  have "float32 x - x = (of_int (roundHalfEven (x / ?ulp)) - x / ?ulp) * ?ulp"
    using up by (simp add: f field_simps)
  then have "\<bar>float32 x - x\<bar> = \<bar>of_int (roundHalfEven (x / ?ulp)) - x / ?ulp\<bar> * ?ulp"
    using up by (simp add: abs_mult)
  also have "\<dots> \<le> 1 / 2 * ?ulp"
    using roundHalfEven_error[of "x / ?ulp"] up by (intro mult_right_mono) simp_all
  also have "\<dots> = 2 powi ?e / 2 ^ 24"
    by (simp add: power_int_diff)
  also have "\<dots> \<le> \<bar>x\<bar> / 2 ^ 24"
    using ilog2_bounds[of "\<bar>x\<bar>"] assms by (simp add: divide_right_mono)
  finally show ?thesis .
qed

lemma float32_consts:
  "float32 1 = 1" "float32 100 = 100"
  "int64 (float32 (float32 (3 / 10) * 100)) = 30"
  "int64 (float32 (float32 (9 / 10) * 100)) = 90"
  by code_simp+

lemma band_30: "inBand (float32 (float32 30 / 100))"
  by code_simp

lemma float32_near:
  assumes "0 < x"
  shows "x * (1 - 1 / 2 ^ 24) \<le> float32 x \<and> float32 x \<le> x * (1 + 1 / 2 ^ 24)"
proof -
  from assms float32_error[of x] have "\<bar>float32 x - x\<bar> \<le> x / 2 ^ 24" by simp
  then have "x - x / 2 ^ 24 \<le> float32 x" "float32 x \<le> x + x / 2 ^ 24" by linarith+
  then show ?thesis by (simp add: algebra_simps)
qed

lemma float32_lower: "0 < x \<Longrightarrow> x * (1 - 1 / 2 ^ 24) \<le> float32 x"
  using float32_near by blast

lemma float32_upper: "0 < x \<Longrightarrow> float32 x \<le> x * (1 + 1 / 2 ^ 24)"
  using float32_near by blast

lemma band_draw:
  assumes "30 \<le> r" "r < 90"
  shows "inBand (float32 (float32 (of_int r) / float32 100))"
proof (cases "r = 30")
  case True
  with band_30 show ?thesis by (simp add: float32_consts)
next
  case False
  with assms have r: "31 \<le> r" "r \<le> 89" by simp_all
  let ?y = "float32 (of_int r)"
  let ?z = "?y / 100"
  let ?v = "float32 ?z"
  have rr: "(31::rat) \<le> of_int r" "of_int r \<le> (89::rat)" using r by simp_all
  then have rpos: "(0::rat) < of_int r" by simp
  have y: "of_int r * (1 - 1 / 2 ^ 24) \<le> ?y" "?y \<le> of_int r * (1 + 1 / 2 ^ 24)"
    using float32_lower[OF rpos] float32_upper[OF rpos] by simp_all
  with rr have ypos: "0 < ?y" by simp
  then have zpos: "0 < ?z" by simp
  have v: "?z * (1 - 1 / 2 ^ 24) \<le> ?v" "?v \<le> ?z * (1 + 1 / 2 ^ 24)"
    using float32_lower[OF zpos] float32_upper[OF zpos] by simp_all
  from rr y v have "3 / 10 \<le> ?v \<and> ?v < 9 / 10" by simp
  then show ?thesis by (simp add: inBand_def float32_consts)
qed

section \<open>The diversity profile\<close>

lemma randContract_constSource: "randContract (constSource v)"
  by (auto simp: randContract_def constSource_def split: if_splits)

lemma random_range:
  assumes "randContract src" "lo < hi"
  shows "lo \<le> fst (random src lo hi k) \<and> fst (random src lo hi k) < hi"
proof (cases "src k (hi - lo)")
  case None
  with assms(2) show ?thesis by (simp add: random_def)
next
  case (Some n)
  with assms(1) have "0 \<le> n \<and> n < hi - lo" unfolding randContract_def by blast
  with Some show ?thesis by (simp add: random_def)
qed

lemma random_count: "snd (random src lo hi k) = Suc k"
  by (simp add: random_def split: option.splits)

lemma float32Rand_count: "snd (float32Rand src lo hi k) = Suc k"
  using random_count[of src "int64 (float32 (lo * 100))" "int64 (float32 (hi * 100))" k]
  by (simp add: float32Rand_def Let_def case_prod_beta)

lemma float32Rand_band:
  assumes "randContract src"
  shows "inBand (fst (float32Rand src (float32 (3 / 10)) (float32 (9 / 10)) k))"
proof -
  from random_range[OF assms, of 30 90 k]
  have "inBand (float32 (float32 (of_int (fst (random src 30 90 k))) / float32 100))"
    by (intro band_draw) simp_all
  then show ?thesis
    by (simp add: float32Rand_def Let_def float32_consts case_prod_beta)
qed

lemma inBand_not_one: "inBand v \<Longrightarrow> v \<noteq> 1"
  by (auto simp: inBand_def)

text \<open>The two sampling controls of the diversity profile, in terms of its first three
  draws.\<close>

lemma NewInterviewSettingsRand_controls:
  "Temperature (fst (NewInterviewSettingsRand src user k)) =
     (if 7 < fst (random src 1 10 (Suc k))
      then Some (fst (float32Rand src (float32 (3 / 10)) (float32 (9 / 10)) (Suc (Suc k))))
      else Some 1)"
  "TopP (fst (NewInterviewSettingsRand src user k)) =
     (if 7 < fst (random src 1 10 (Suc k))
      then Some 1
      else Some (fst (float32Rand src (float32 (3 / 10)) (float32 (9 / 10)) k)))"
  using float32Rand_count[of src "float32 (3 / 10)" "float32 (9 / 10)" k]
    random_count[of src 1 10 "Suc k"]
  by (simp_all add: NewInterviewSettingsRand_def float32PtrRand_def Float32Ptr_def float32_consts
      Let_def case_prod_beta)

text \<open>
  Claim C2. For every user identifier and every random source that keeps the promise of
  \<^verbatim>\<open>rand.Int\<close> (each value lies in the requested range; a read error may occur at any
  call), the settings of \<open>NewInterviewSettingsRand\<close> have exactly one of \<open>Temperature\<close> and
  \<open>TopP\<close> equal to 1.0, and the other one inside the band from 0.3 (included) to 0.9
  (excluded), so not equal to 1.0.
\<close>

theorem diversity_profile_one_control:
  "randContract src \<Longrightarrow>
    (let settings = fst (NewInterviewSettingsRand src user k)
     in (pinned (Temperature settings) \<and> randomized (TopP settings)
           \<and> \<not> pinned (TopP settings))
      \<or> (pinned (TopP settings) \<and> randomized (Temperature settings)
           \<and> \<not> pinned (Temperature settings)))"
proof -
  assume c: "randContract src"
  note b = float32Rand_band[OF c]
  show ?thesis
    using b[of k] b[of "Suc (Suc k)"] inBand_not_one
    by (auto simp: Let_def NewInterviewSettingsRand_controls pinned_def randomized_def)
qed

text \<open>The theorem at the source that always returns 7: the selector draws 8, top-p is
  pinned and the temperature is drawn as 37 hundredths.\<close>

theorem diversity_profile_one_control_witness:
  "(let settings = fst (NewInterviewSettingsRand (constSource 7) ''u'' 0)
     in (pinned (Temperature settings) \<and> randomized (TopP settings)
           \<and> \<not> pinned (TopP settings))
      \<or> (pinned (TopP settings) \<and> randomized (Temperature settings)
           \<and> \<not> pinned (Temperature settings)))
   \<and> TopP (fst (NewInterviewSettingsRand (constSource 7) ''u'' 0)) = Some 1
   \<and> Temperature (fst (NewInterviewSettingsRand (constSource 7) ''u'' 0)) = Some (float32 (float32 37 / 100))"
proof -
  have c: "randContract (constSource 7)" by (rule randContract_constSource)
  have v: "TopP (fst (NewInterviewSettingsRand (constSource 7) ''u'' 0)) = Some 1
   \<and> Temperature (fst (NewInterviewSettingsRand (constSource 7) ''u'' 0)) = Some (float32 (float32 37 / 100))"
    by (simp add: NewInterviewSettingsRand_controls random_def constSource_def float32Rand_def
        float32_consts Let_def)
  from diversity_profile_one_control[OF c, of "''u''" 0] v show ?thesis by simp
qed

text \<open>
  Claim C3, as amended. The selector is the second draw of the constructor, one integer
  from the range from 1 (included) to 10 (excluded). The temperature branch (temperature
  randomized, top-p pinned to 1.0) is taken exactly when the draw exceeds 7, that is for
  the draws 8 and 9: two of the nine values.
\<close>

theorem temperature_branch_draws:
  "randContract src \<Longrightarrow>
    (let draw = fst (random src 1 10 (Suc k));
         settings = fst (NewInterviewSettingsRand src user k)
     in 1 \<le> draw \<and> draw < 10
        \<and> (pinned (TopP settings) \<and> randomized (Temperature settings) \<longleftrightarrow> 7 < draw)
        \<and> (7 < draw \<longleftrightarrow> draw = 8 \<or> draw = 9))"
proof -
  assume c: "randContract src"
  note b = float32Rand_band[OF c]
  from random_range[OF c, of 1 10 "Suc k"]
  have d: "1 \<le> fst (random src 1 10 (Suc k))" "fst (random src 1 10 (Suc k)) < 10" by simp_all
  then have "7 < fst (random src 1 10 (Suc k)) \<longleftrightarrow>
      fst (random src 1 10 (Suc k)) = 8 \<or> fst (random src 1 10 (Suc k)) = 9" by auto
  with d show ?thesis
    using b[of k] b[of "Suc (Suc k)"] inBand_not_one
    by (auto simp: Let_def NewInterviewSettingsRand_controls pinned_def randomized_def)
qed

text \<open>The theorem at the source that always returns 7, whose selector draws 8.\<close>

theorem temperature_branch_draws_witness:
  "(let draw = fst (random (constSource 7) 1 10 (Suc 0));
         settings = fst (NewInterviewSettingsRand (constSource 7) ''u'' 0)
     in 1 \<le> draw \<and> draw < 10
        \<and> (pinned (TopP settings) \<and> randomized (Temperature settings) \<longleftrightarrow> 7 < draw)
        \<and> (7 < draw \<longleftrightarrow> draw = 8 \<or> draw = 9))
   \<and> fst (random (constSource 7) 1 10 (Suc 0)) = 8"
proof -
  have c: "randContract (constSource 7)" by (rule randContract_constSource)
  have d: "fst (random (constSource 7) 1 10 (Suc 0)) = 8"
    by (simp add: random_def constSource_def)
  from temperature_branch_draws[OF c, of 0 "''u''"] d show ?thesis by simp
qed

lemma selectsTemperature_iff:
  assumes "0 \<le> n" "n < 9"
  shows "selectsTemperature n \<longleftrightarrow> 7 \<le> n"
proof -
  have c: "randContract (constSource n)" by (rule randContract_constSource)
  note b = float32Rand_band[OF c]
  have d: "fst (random (constSource n) 1 10 (Suc 0)) = n + 1"
    using assms by (simp add: random_def constSource_def)
  show ?thesis
    using b[of 0] b[of "Suc (Suc 0)"] inBand_not_one
    by (auto simp: selectsTemperature_def Let_def NewInterviewSettingsRand_controls d pinned_def
        randomized_def)
qed

text \<open>Claim C3 as stated fails: of the nine values the selector can draw, two take the
  temperature branch, not three.\<close>

theorem temperature_branch_three_of_nine_counterexample:
  "filter selectsTemperature [0, 1, 2, 3, 4, 5, 6, 7, 8] = [7, 8]
   \<and> length (filter selectsTemperature [0, 1, 2, 3, 4, 5, 6, 7, 8]) \<noteq> 3"
  by (simp add: selectsTemperature_iff)

end
